theory Spec2Isabelle
  imports Complex_Main
begin

section \<open>Progress tracker (main.js)\<close>

subsection \<open>Catalog and storage\<close>

text \<open>
  \<^verbatim>\<open>FEATURE_PAGES\<close> is the array of the four tracked pages; every entry is an object
  with the fields \<^verbatim>\<open>id\<close>, \<^verbatim>\<open>name\<close> and \<^verbatim>\<open>url\<close>.
\<close>

record feature_page =
  page_id :: string
  page_name :: string
  page_url :: string

definition FEATURE_PAGES :: "feature_page list" where
  "FEATURE_PAGES =
     [\<lparr>page_id = ''micro-interactions'', page_name = ''Micro Interactions'',
        page_url = ''micro-interactions.html''\<rparr>,
      \<lparr>page_id = ''scroll-lab'', page_name = ''Scroll Storytelling'',
        page_url = ''scroll-lab.html''\<rparr>,
      \<lparr>page_id = ''react-lab'', page_name = ''React Lab'', page_url = ''react-lab.html''\<rparr>,
      \<lparr>page_id = ''vue-lab'', page_name = ''Vue Lab'', page_url = ''vue-lab.html''\<rparr>]"

definition STORAGE_KEY :: string where
  "STORAGE_KEY = ''playground_visited_pages''"

definition catalog_ids :: "string list" where
  "catalog_ids = map page_id FEATURE_PAGES"

text \<open>
  The text kept under a key of \<^verbatim>\<open>localStorage\<close>, classified by what
  \<^verbatim>\<open>stored ? JSON.parse(stored) : []\<close> does with it: the empty string is falsy,
  \<open>Malformed_text\<close> makes \<^verbatim>\<open>JSON.parse\<close> throw, and \<open>Array_text xs\<close> is the text
  that \<^verbatim>\<open>JSON.stringify\<close> produces for the array of strings \<open>xs\<close> and that
  \<^verbatim>\<open>JSON.parse\<close> reads back as \<open>xs\<close>. The functions below are typed
  \<^verbatim>\<open>Array<string>\<close> in the source, so text that parses to some other JSON value is
  not part of the model.

  The store itself can refuse an access: \<^verbatim>\<open>getItem\<close> and \<^verbatim>\<open>setItem\<close> raise when
  storage is blocked or full. Both handlers of the source are branches below.
\<close>

datatype stored_text = Empty_text | Malformed_text | Array_text "string list"

record localStorage =
  getItem_throws :: bool
  setItem_throws :: bool
  items :: "string \<rightharpoonup> stored_text"

definition empty_storage :: localStorage where
  "empty_storage = \<lparr>getItem_throws = False, setItem_throws = False, items = Map.empty\<rparr>"

subsection \<open>Reading and writing the visited list\<close>

text \<open>
  \<^verbatim>\<open>getVisitedPages\<close>: the \<^verbatim>\<open>try\<close> block reads the item and parses it; a missing item
  (\<^verbatim>\<open>null\<close>) and the empty string give \<^verbatim>\<open>[]\<close>; the \<^verbatim>\<open>catch\<close> block logs and
  returns \<^verbatim>\<open>[]\<close>.
\<close>

definition getVisitedPages :: "localStorage \<Rightarrow> string list" where
  "getVisitedPages st =
     (if getItem_throws st then []
      else case items st STORAGE_KEY of
             None \<Rightarrow> []
           | Some Empty_text \<Rightarrow> []
           | Some Malformed_text \<Rightarrow> []
           | Some (Array_text xs) \<Rightarrow> xs)"

text \<open>
  \<^verbatim>\<open>saveVisitedPages\<close>: the whole list replaces the item; a failing write is logged and
  swallowed, which leaves the store as it was.
\<close>

definition saveVisitedPages :: "string list \<Rightarrow> localStorage \<Rightarrow> localStorage" where
  "saveVisitedPages pages st =
     (if setItem_throws st then st
      else st\<lparr>items := (items st)(STORAGE_KEY \<mapsto> Array_text pages)\<rparr>)"

text \<open>
  \<^verbatim>\<open>markPageAsVisited\<close>: \<^verbatim>\<open>visited.includes(pageId)\<close> is the only test; when it
  fails the id is pushed at the end and the list is saved.
\<close>

definition markPageAsVisited :: "string \<Rightarrow> localStorage \<Rightarrow> localStorage" where
  "markPageAsVisited pageId st =
     (let visited = getVisitedPages st
      in if pageId \<notin> set visited then saveVisitedPages (visited @ [pageId]) st else st)"

definition isPageVisited :: "string \<Rightarrow> localStorage \<Rightarrow> bool" where
  "isPageVisited pageId st = (pageId \<in> set (getVisitedPages st))"

subsection \<open>Progress statistics\<close>

text \<open>
  \<^verbatim>\<open>Math.round\<close> rounds to the nearest integer, a tie going up. The quotient
  \<^verbatim>\<open>visitedCount / total\<close> is a division by four and the product with 100 is an
  integer, so the double arithmetic of the source is exact here and is written with reals.
\<close>

definition Math_round :: "real \<Rightarrow> int" where
  "Math_round x = \<lfloor>x + 1 / 2\<rfloor>"

record progress_stats =
  visitedCount :: nat
  total :: nat
  percentage :: int
  allVisited :: bool

definition getProgressStats :: "localStorage \<Rightarrow> progress_stats" where
  "getProgressStats st =
     (let visited = getVisitedPages st;
          total = length FEATURE_PAGES;
          visitedCount = length visited;
          percentage = (if total > 0 then Math_round ((real visitedCount / real total) * 100)
                        else 0)
      in \<lparr>visitedCount = visitedCount, total = total, percentage = percentage,
          allVisited = (visitedCount = total)\<rparr>)"

section \<open>Micro interactions page (micro-interactions.js)\<close>

subsection \<open>Document, session store and timers\<close>

text \<open>
  The elements that the script creates and appends to \<^verbatim>\<open>document.body\<close>: the tooltip
  overlays, the interaction-message banner and the easter-egg overlay. \<open>content\<close> is the
  text put into the element, \<open>visible\<close> is membership of the class \<^verbatim>\<open>visible\<close>.
  The pixel position that the tooltip handler computes from layout metrics is not modelled.
\<close>

record dom_node =
  node_id :: nat
  className :: string
  content :: string
  visible :: bool

text \<open>
  A pending \<^verbatim>\<open>setTimeout\<close> callback. The script never cancels one, so each runs once.
\<close>

datatype timer =
    Show_easter_egg string
  | Add_visible nat
  | Hide_message nat
  | Remove_message nat

text \<open>
  The three entries of the array \<^verbatim>\<open>states\<close> and the part of the button element that
  \<^verbatim>\<open>updateButtonState\<close> writes.
\<close>

record button_state =
  state_text :: string
  state_color :: string
  state_shape :: string

definition states :: "button_state list" where
  "states =
     [\<lparr>state_text = ''Hover me'', state_color = ''var(--primary-color)'',
        state_shape = ''normal''\<rparr>,
      \<lparr>state_text = ''Click me'', state_color = ''var(--secondary-color)'',
        state_shape = ''rounded''\<rparr>,
      \<lparr>state_text = ''Nice!'', state_color = ''var(--success-color)'',
        state_shape = ''circle''\<rparr>]"

record button_element =
  button_textContent :: string
  style_backgroundColor :: string
  style_borderRadius :: string
  style_width :: string
  style_height :: string

definition updateButtonState :: "button_element \<Rightarrow> button_state \<Rightarrow> button_element" where
  "updateButtonState button state =
     (let b = button\<lparr>button_textContent := state_text state,
                      style_backgroundColor := state_color state\<rparr>
      in if state_shape state = ''rounded''
         then b\<lparr>style_borderRadius := ''var(--radius-lg)''\<rparr>
         else if state_shape state = ''circle''
         then b\<lparr>style_borderRadius := ''50%'', style_width := ''100px'',
                style_height := ''100px''\<rparr>
         else b\<lparr>style_borderRadius := ''var(--radius-md)'', style_width := ''auto'',
                style_height := ''auto''\<rparr>)"

text \<open>
  \<^verbatim>\<open>sessionStorage\<close>: its items, and whether \<^verbatim>\<open>getItem\<close> and \<^verbatim>\<open>setItem\<close>
  raise (storage blocked or full), as for \<^verbatim>\<open>localStorage\<close> above. The script
  has no handler for either, so a raise ends the event handler that made the call.
\<close>

record sessionStore =
  session_getItem_throws :: bool
  session_setItem_throws :: bool
  session_items :: "string \<rightharpoonup> string"

definition working_session :: sessionStore where
  "working_session =
     \<lparr>session_getItem_throws = False, session_setItem_throws = False,
      session_items = Map.empty\<rparr>"

definition blocked_session :: sessionStore where
  "blocked_session =
     \<lparr>session_getItem_throws = True, session_setItem_throws = True,
      session_items = Map.empty\<rparr>"

definition full_session :: sessionStore where
  "full_session =
     \<lparr>session_getItem_throws = False, session_setItem_throws = True,
      session_items = Map.empty\<rparr>"

definition store_works :: "sessionStore \<Rightarrow> bool" where
  "store_works st \<longleftrightarrow> \<not> session_getItem_throws st \<and> \<not> session_setItem_throws st"

text \<open>
  How a call ends: it returns, or it raises; either way with the state the page has at
  that point, since what was done before a raise stays done.
\<close>

datatype 'a outcome = Returns 'a | Raises 'a

fun state_of :: "'a outcome \<Rightarrow> 'a" where
  "state_of (Returns s) = s"
| "state_of (Raises s) = s"

fun raised :: "'a outcome \<Rightarrow> bool" where
  "raised (Returns s) = False"
| "raised (Raises s) = True"

text \<open>
  The state of one page load. \<open>clickCount\<close> and \<open>currentState\<close> are the closure
  variables of \<^verbatim>\<open>initStateButton\<close>; \<open>tooltip t\<close> is the closure variable
  \<^verbatim>\<open>tooltip\<close> of trigger number \<open>t\<close>, holding the id of the overlay it created.
  \<open>body\<close> lists the script's elements now attached to the document and
  \<open>appendChild_log\<close> every element ever passed to \<^verbatim>\<open>document.body.appendChild\<close>;
  \<open>timers\<close> holds the pending callbacks and \<open>setTimeout_log\<close> every callback ever
  handed to \<^verbatim>\<open>setTimeout\<close>.
  \<open>theme_text\<close> is the text of the element \<^verbatim>\<open>.theme-text\<close> inside the preview
  panel, \<open>None\<close> when the panel has no such element. \<open>sessionStorage\<close> outlives the
  page load. \<open>clickCount\<close> is a JavaScript number, exact as long as it stays below
  \<open>2 ^ 53\<close>.
\<close>

record micro_page =
  clickCount :: nat
  currentState :: nat
  stateButton :: button_element
  flipped :: bool
  dark_theme :: bool
  theme_text :: "string option"
  tooltip :: "nat \<Rightarrow> nat option"
  body :: "dom_node list"
  appendChild_log :: "dom_node list"
  next_node :: nat
  timers :: "timer list"
  setTimeout_log :: "timer list"
  sessionStorage :: sessionStore

definition init_micro_page ::
  "button_element \<Rightarrow> string option \<Rightarrow> sessionStore \<Rightarrow> micro_page" where
  "init_micro_page button theme session =
     \<lparr>clickCount = 0, currentState = 0, stateButton = button, flipped = False,
      dark_theme = False, theme_text = theme, tooltip = (\<lambda>t. None), body = [],
      appendChild_log = [], next_node = 0, timers = [], setTimeout_log = [],
      sessionStorage = session\<rparr>"

definition appendChild :: "dom_node \<Rightarrow> micro_page \<Rightarrow> micro_page" where
  "appendChild el s = s\<lparr>body := body s @ [el], appendChild_log := appendChild_log s @ [el]\<rparr>"

definition remove_node :: "nat \<Rightarrow> micro_page \<Rightarrow> micro_page" where
  "remove_node n s = s\<lparr>body := filter (\<lambda>el. node_id el \<noteq> n) (body s)\<rparr>"

definition set_visible :: "nat \<Rightarrow> bool \<Rightarrow> micro_page \<Rightarrow> micro_page" where
  "set_visible n v s =
     s\<lparr>body := map (\<lambda>el. if node_id el = n then el\<lparr>visible := v\<rparr> else el) (body s)\<rparr>"

definition setTimeout :: "timer \<Rightarrow> micro_page \<Rightarrow> micro_page" where
  "setTimeout t s =
     s\<lparr>timers := timers s @ [t], setTimeout_log := setTimeout_log s @ [t]\<rparr>"

subsection \<open>Helper functions of the script\<close>

definition interaction_message_key :: string where
  "interaction_message_key = ''interaction-message-shown''"

text \<open>
  \<^verbatim>\<open>if (sessionStorage.getItem(...))\<close>: a missing item is \<^verbatim>\<open>null\<close> and the empty
  string is falsy; every other stored string counts as shown.
\<close>

definition message_shown :: "micro_page \<Rightarrow> bool" where
  "message_shown s =
     (case session_items (sessionStorage s) interaction_message_key of
        None \<Rightarrow> False
      | Some v \<Rightarrow> v \<noteq> [])"

text \<open>
  \<^verbatim>\<open>showInteractionMessage\<close>, in the order of the source: the read of the flag, which
  may raise before anything is done; the early return; the banner appended and its two
  timers set; and last the write of the flag, which may raise with the banner already
  appended and the flag still unset.
\<close>

definition showInteractionMessage :: "string \<Rightarrow> micro_page \<Rightarrow> micro_page outcome" where
  "showInteractionMessage message s =
     (if session_getItem_throws (sessionStorage s) then Raises s
      else if message_shown s then Returns s
      else
        let n = next_node s;
            messageEl = \<lparr>node_id = n, className = ''interaction-message'',
                         content = message, visible = False\<rparr>;
            s1 = appendChild messageEl (s\<lparr>next_node := n + 1\<rparr>);
            s2 = setTimeout (Add_visible n) s1;
            s3 = setTimeout (Hide_message n) s2
        in if session_setItem_throws (sessionStorage s3) then Raises s3
           else Returns
             (s3\<lparr>sessionStorage := (sessionStorage s3)
                   \<lparr>session_items :=
                      (session_items (sessionStorage s3))
                        (interaction_message_key \<mapsto> ''true'')\<rparr>\<rparr>))"

definition showEasterEgg :: "string \<Rightarrow> micro_page \<Rightarrow> micro_page" where
  "showEasterEgg message s =
     (let n = next_node s;
          easterEgg = \<lparr>node_id = n, className = ''easter-egg'', content = message,
                       visible = False\<rparr>;
          s1 = appendChild easterEgg (s\<lparr>next_node := n + 1\<rparr>)
      in setTimeout (Add_visible n) s1)"

definition first_interaction_message :: string where
  "first_interaction_message = ''You've tried at least one micro interaction!''"

text \<open>The easter-egg text of the source, without its closing emoji.\<close>

definition easter_egg_message :: string where
  "easter_egg_message =
     ''You're curious! We can also design secret interactions like this.''"

subsection \<open>Event handlers\<close>

text \<open>The three listeners that \<^verbatim>\<open>initStateButton\<close> registers on the button.\<close>

definition button_mouseenter :: "micro_page \<Rightarrow> micro_page" where
  "button_mouseenter s =
     (if currentState s = 0
      then s\<lparr>currentState := 1,
             stateButton := updateButtonState (stateButton s) (states ! 1)\<rparr>
      else s)"

text \<open>
  The click listener. When \<^verbatim>\<open>showInteractionMessage\<close> raises, the listener ends
  there, after the counter and the state have been written and before the test
  \<^verbatim>\<open>clickCount === 5\<close>.
\<close>

definition button_click :: "micro_page \<Rightarrow> micro_page" where
  "button_click s =
     (let s1 = s\<lparr>clickCount := clickCount s + 1\<rparr>;
          r = (if currentState s1 = 1
               then showInteractionMessage first_interaction_message
                      (s1\<lparr>currentState := 2,
                          stateButton := updateButtonState (stateButton s1) (states ! 2)\<rparr>)
               else Returns s1)
      in case r of
           Raises s2 \<Rightarrow> s2
         | Returns s2 \<Rightarrow>
             if clickCount s2 = 5 then setTimeout (Show_easter_egg easter_egg_message) s2
             else s2)"

definition button_mouseleave :: "micro_page \<Rightarrow> micro_page" where
  "button_mouseleave s =
     (if currentState s = 1
      then s\<lparr>currentState := 0,
             stateButton := updateButtonState (stateButton s) (states ! 0)\<rparr>
      else s)"

text \<open>
  The listeners of \<^verbatim>\<open>initFlipCard\<close>. In this listener, in the toggle listener
  and in the tooltip listener the request of the message is the last statement, so a raise
  there leaves the state the call had reached.
\<close>

definition flipCard_mouseenter :: "micro_page \<Rightarrow> micro_page" where
  "flipCard_mouseenter s =
     state_of (showInteractionMessage first_interaction_message (s\<lparr>flipped := True\<rparr>))"

definition flipCard_mouseleave :: "micro_page \<Rightarrow> micro_page" where
  "flipCard_mouseleave s = s\<lparr>flipped := False\<rparr>"

text \<open>
  The \<^verbatim>\<open>change\<close> listener of \<^verbatim>\<open>initThemeToggle\<close>. The class of the preview panel
  is set first; \<^verbatim>\<open>previewPanel.querySelector('.theme-text').textContent = ...\<close> raises
  a TypeError when the panel has no such element, which ends the handler before the
  message is requested.
\<close>

definition toggle_change :: "bool \<Rightarrow> micro_page \<Rightarrow> micro_page" where
  "toggle_change checked s =
     (let s1 = s\<lparr>dark_theme := checked\<rparr>
      in case theme_text s1 of
           None \<Rightarrow> s1
         | Some old \<Rightarrow>
             state_of (showInteractionMessage first_interaction_message
               (s1\<lparr>theme_text :=
                     Some (if checked then ''Dark theme selected''
                           else ''Light theme selected'')\<rparr>)))"

text \<open>
  The two listeners that \<^verbatim>\<open>initTooltips\<close> registers on every trigger. Each trigger
  has its own variable \<^verbatim>\<open>tooltip\<close>; \<^verbatim>\<open>mouseenter\<close> overwrites it with a new
  element without looking at the old value or at the other triggers.
\<close>

definition trigger_mouseenter :: "nat \<Rightarrow> string \<Rightarrow> micro_page \<Rightarrow> micro_page" where
  "trigger_mouseenter t tooltipText s =
     (let n = next_node s;
          el = \<lparr>node_id = n, className = ''tooltip'', content = tooltipText,
                visible = False\<rparr>;
          s1 = appendChild el
                 (s\<lparr>next_node := n + 1, tooltip := (tooltip s)(t := Some n)\<rparr>)
      in state_of (showInteractionMessage first_interaction_message s1))"

definition trigger_mouseleave :: "nat \<Rightarrow> micro_page \<Rightarrow> micro_page" where
  "trigger_mouseleave t s =
     (case tooltip s t of
        None \<Rightarrow> s
      | Some n \<Rightarrow> (remove_node n s)\<lparr>tooltip := (tooltip s)(t := None)\<rparr>)"

text \<open>The callbacks handed to \<^verbatim>\<open>setTimeout\<close>.\<close>

fun run_timer :: "timer \<Rightarrow> micro_page \<Rightarrow> micro_page" where
  "run_timer (Show_easter_egg message) s = showEasterEgg message s"
| "run_timer (Add_visible n) s = set_visible n True s"
| "run_timer (Hide_message n) s = setTimeout (Remove_message n) (set_visible n False s)"
| "run_timer (Remove_message n) s = remove_node n s"

text \<open>
  The events of the page. \<open>Trigger_mouseenter t txt\<close> is a pointer-enter on trigger
  \<open>t\<close> whose attribute \<^verbatim>\<open>data-tooltip\<close> reads \<open>txt\<close>. \<open>Timer_fires k\<close> runs the
  \<open>k\<close>-th pending timer; the model lets pending timers run in any order, which covers
  the order the delays give. \<open>Dismiss_click n\<close> is a click on the button of easter-egg
  overlay \<open>n\<close>, whose inline handler removes the overlay.
\<close>

datatype micro_event =
    Button_mouseenter
  | Button_click
  | Button_mouseleave
  | FlipCard_mouseenter
  | FlipCard_mouseleave
  | Toggle_change bool
  | Trigger_mouseenter nat string
  | Trigger_mouseleave nat
  | Timer_fires nat
  | Dismiss_click nat

fun micro_step :: "micro_page \<Rightarrow> micro_event \<Rightarrow> micro_page" where
  "micro_step s Button_mouseenter = button_mouseenter s"
| "micro_step s Button_click = button_click s"
| "micro_step s Button_mouseleave = button_mouseleave s"
| "micro_step s FlipCard_mouseenter = flipCard_mouseenter s"
| "micro_step s FlipCard_mouseleave = flipCard_mouseleave s"
| "micro_step s (Toggle_change checked) = toggle_change checked s"
| "micro_step s (Trigger_mouseenter t txt) = trigger_mouseenter t txt s"
| "micro_step s (Trigger_mouseleave t) = trigger_mouseleave t s"
| "micro_step s (Timer_fires k) =
     (if k < length (timers s)
      then run_timer (timers s ! k) (s\<lparr>timers := take k (timers s) @ drop (Suc k) (timers s)\<rparr>)
      else s)"
| "micro_step s (Dismiss_click n) =
     (if n \<in> set (map node_id (filter (\<lambda>el. className el = ''easter-egg'') (body s)))
      then remove_node n s else s)"

definition micro_run :: "micro_page \<Rightarrow> micro_event list \<Rightarrow> micro_page" where
  "micro_run s evs = foldl micro_step s evs"

text \<open>The observations that the properties below are stated on.\<close>

definition tooltip_overlays :: "micro_page \<Rightarrow> dom_node list" where
  "tooltip_overlays s = filter (\<lambda>el. className el = ''tooltip'') (body s)"

definition banners_shown :: "micro_page \<Rightarrow> dom_node list" where
  "banners_shown s = filter (\<lambda>el. className el = ''interaction-message'') (appendChild_log s)"

fun is_easter_egg_timer :: "timer \<Rightarrow> bool" where
  "is_easter_egg_timer (Show_easter_egg m) = True"
| "is_easter_egg_timer (Add_visible n) = False"
| "is_easter_egg_timer (Hide_message n) = False"
| "is_easter_egg_timer (Remove_message n) = False"

definition easter_egg_requests :: "micro_page \<Rightarrow> timer list" where
  "easter_egg_requests s = filter is_easter_egg_timer (setTimeout_log s)"

definition easter_eggs_shown :: "micro_page \<Rightarrow> dom_node list" where
  "easter_eggs_shown s = filter (\<lambda>el. className el = ''easter-egg'') (appendChild_log s)"

definition clicks :: "micro_event list \<Rightarrow> nat" where
  "clicks evs = length (filter (\<lambda>e. e = Button_click) evs)"

definition pending_easter_eggs :: "micro_page \<Rightarrow> timer list" where
  "pending_easter_eggs s = filter is_easter_egg_timer (timers s)"

definition banner :: "nat \<Rightarrow> string \<Rightarrow> dom_node" where
  "banner n message =
     \<lparr>node_id = n, className = ''interaction-message'', content = message, visible = False\<rparr>"


text \<open>
  The triggers that hold an overlay, and the event sequences in which no trigger gets a
  pointer-enter while it holds one (pointer-enter and pointer-leave alternate on every
  trigger).
\<close>

definition hovered :: "micro_page \<Rightarrow> nat set" where
  "hovered s = dom (tooltip s)"

fun enters_alternate :: "micro_page \<Rightarrow> micro_event list \<Rightarrow> bool" where
  "enters_alternate s [] = True"
| "enters_alternate s (e # evs) =
     ((case e of Trigger_mouseenter t txt \<Rightarrow> tooltip s t = None | _ \<Rightarrow> True) \<and>
      enters_alternate (micro_step s e) evs)"

subsection \<open>Invariants and sample data\<close>

text \<open>A button element as the page may carry it at load.\<close>

definition sample_button :: button_element where
  "sample_button =
     \<lparr>button_textContent = ''Hover me'', style_backgroundColor = ''var(--primary-color)'',
      style_borderRadius = ''var(--radius-md)'', style_width = ''auto'',
      style_height = ''auto''\<rparr>"

text \<open>
  The bookkeeping used in the proofs: every requested easter egg is pending or shown; no
  banner has been appended while the session flag is unset, and at most one afterwards;
  and the tooltip overlays in the document are exactly those held by the triggers.
  \<open>tags\<close> lists the id and class of the elements in \<open>body\<close>.
\<close>

definition egg_balance :: "micro_page \<Rightarrow> bool" where
  "egg_balance s \<longleftrightarrow>
     length (pending_easter_eggs s) + length (easter_eggs_shown s) =
     length (easter_egg_requests s)"

definition banner_inv :: "micro_page \<Rightarrow> bool" where
  "banner_inv s \<longleftrightarrow> (if message_shown s then length (banners_shown s) \<le> 1
                     else banners_shown s = [])"

definition tags :: "micro_page \<Rightarrow> (nat \<times> string) list" where
  "tags s = map (\<lambda>el. (node_id el, className el)) (body s)"

definition tip_inv :: "micro_page \<Rightarrow> bool" where
  "tip_inv s \<longleftrightarrow>
     distinct (map fst (tags s)) \<and>
     (\<forall>p \<in> set (tags s). fst p < next_node s) \<and>
     (\<forall>n. Hide_message n \<in> set (timers s) \<or> Remove_message n \<in> set (timers s) \<longrightarrow>
          n < next_node s \<and> (\<forall>t. tooltip s t \<noteq> Some n)) \<and>
     (\<forall>t n. tooltip s t = Some n \<longrightarrow> n < next_node s \<and> (n, ''tooltip'') \<in> set (tags s)) \<and>
     (\<forall>n. (n, ''tooltip'') \<in> set (tags s) \<longrightarrow> (\<exists>t. tooltip s t = Some n)) \<and>
     (\<forall>t t' n. tooltip s t = Some n \<and> tooltip s t' = Some n \<longrightarrow> t = t') \<and>
     finite (dom (tooltip s))"

section \<open>Scroll storytelling page (scroll-lab.js)\<close>

text \<open>
  What the scroll listener reads at an event, in whole units:
  \<^verbatim>\<open>document.documentElement.scrollHeight\<close>, \<^verbatim>\<open>window.pageYOffset\<close>,
  \<^verbatim>\<open>document.documentElement.scrollTop\<close> and \<^verbatim>\<open>window.innerHeight\<close>.
\<close>

record scroll_metrics =
  scrollHeight :: int
  pageYOffset :: int
  documentElement_scrollTop :: int
  innerHeight :: int

text \<open>
  \<open>hasReachedBottom\<close> and \<open>hasReturnedToTop\<close> are the two variables of the module.
  \<open>scrollTimeout\<close> says whether the timer kept in the variable \<^verbatim>\<open>scrollTimeout\<close> is
  still pending; \<open>egg_timeouts_set\<close> counts the calls
  \<^verbatim>\<open>setTimeout(() => showEasterEgg(), 500)\<close> and \<open>egg_overlays\<close> the overlays that
  \<^verbatim>\<open>showEasterEgg\<close> appended. \<open>scroll_hint\<close> is membership of the class
  \<^verbatim>\<open>fade-out\<close> on the element \<^verbatim>\<open>.scroll-hint\<close>, \<open>None\<close> when the page has none.
\<close>

record scroll_page =
  hasReachedBottom :: bool
  hasReturnedToTop :: bool
  scrollTimeout :: bool
  egg_timeouts_set :: nat
  egg_overlays :: nat
  scroll_hint :: "bool option"

definition init_scroll_page :: "bool option \<Rightarrow> scroll_page" where
  "init_scroll_page hint =
     \<lparr>hasReachedBottom = False, hasReturnedToTop = False, scrollTimeout = False,
      egg_timeouts_set = 0, egg_overlays = 0, scroll_hint = hint\<rparr>"

text \<open>\<^verbatim>\<open>window.pageYOffset || document.documentElement.scrollTop\<close>: zero is falsy.\<close>

definition scrollTop :: "scroll_metrics \<Rightarrow> int" where
  "scrollTop m = (if pageYOffset m \<noteq> 0 then pageYOffset m else documentElement_scrollTop m)"

definition distanceFromBottom :: "scroll_metrics \<Rightarrow> int" where
  "distanceFromBottom m = scrollHeight m - (scrollTop m + innerHeight m)"

definition updateStickyLabel :: "scroll_metrics \<Rightarrow> scroll_page \<Rightarrow> scroll_page" where
  "updateStickyLabel m s =
     (case scroll_hint s of
        None \<Rightarrow> s
      | Some old \<Rightarrow> s\<lparr>scroll_hint := Some (scrollTop m > 300)\<rparr>)"

text \<open>
  The scroll listener of \<^verbatim>\<open>initScrollTracking\<close>: it clears the pending timer, then
  runs the two tests in the order of the source, the second on the flag the first may
  just have set.
\<close>

definition on_scroll :: "scroll_metrics \<Rightarrow> scroll_page \<Rightarrow> scroll_page" where
  "on_scroll m s =
     (let s0 = s\<lparr>scrollTimeout := False\<rparr>;
          s1 = (if distanceFromBottom m < 50 \<and> \<not> hasReachedBottom s0
                then s0\<lparr>hasReachedBottom := True\<rparr> else s0);
          s2 = (if hasReachedBottom s1 \<and> scrollTop m < 100 \<and> \<not> hasReturnedToTop s1
                then s1\<lparr>hasReturnedToTop := True, scrollTimeout := True,
                        egg_timeouts_set := egg_timeouts_set s1 + 1\<rparr>
                else s1)
      in updateStickyLabel m s2)"

datatype scroll_event = Scroll scroll_metrics | ScrollTimeout_fires

fun scroll_step :: "scroll_page \<Rightarrow> scroll_event \<Rightarrow> scroll_page" where
  "scroll_step s (Scroll m) = on_scroll m s"
| "scroll_step s ScrollTimeout_fires =
     (if scrollTimeout s then s\<lparr>scrollTimeout := False, egg_overlays := egg_overlays s + 1\<rparr>
      else s)"

definition scroll_run :: "scroll_page \<Rightarrow> scroll_event list \<Rightarrow> scroll_page" where
  "scroll_run s evs = foldl scroll_step s evs"

fun near_bottom :: "scroll_event \<Rightarrow> bool" where
  "near_bottom (Scroll m) = (distanceFromBottom m < 50)"
| "near_bottom ScrollTimeout_fires = False"

fun near_top :: "scroll_event \<Rightarrow> bool" where
  "near_top (Scroll m) = (scrollTop m < 100)"
| "near_top ScrollTimeout_fires = False"

text \<open>
  The bookkeeping used in the proofs: the second flag implies the first, the timeout has
  been set once exactly if the second flag holds, and the overlays appended together with
  a pending timeout never exceed the timeouts set.
\<close>

definition scroll_inv :: "scroll_page \<Rightarrow> bool" where
  "scroll_inv s \<longleftrightarrow>
     (hasReturnedToTop s \<longrightarrow> hasReachedBottom s) \<and>
     egg_timeouts_set s = (if hasReturnedToTop s then 1 else 0) \<and>
     egg_overlays s + (if scrollTimeout s then 1 else 0) \<le> egg_timeouts_set s"

section \<open>Vue lab page (vue-lab.js)\<close>

text \<open>
  The global \<^verbatim>\<open>Vue\<close> as \<^verbatim>\<open>initVueApp\<close> finds it: undefined, defined without
  \<^verbatim>\<open>createApp\<close>, a Vue 3 whose \<^verbatim>\<open>createApp(...).mount(...)\<close> raises an error with
  the given message, or a Vue 3 that mounts.
\<close>

datatype vue_global = Vue_undefined | Vue_without_createApp | Vue_mount_throws string | Vue_ok

text \<open>
  The markup that \<^verbatim>\<open>showVueError\<close> writes: which of the two cause paragraphs it
  carries, whether the suggestions box is there, and the error line.
\<close>

datatype hint = Local_file_hint | Cdn_hint

record fallback_panel =
  cause :: hint
  suggestions_box :: bool
  error_line :: "string option"

datatype root_content = Page_markup | Vue_mounted | Fallback fallback_panel

text \<open>
  \<open>vue_app\<close> is the content of the element \<^verbatim>\<open>#vue-app\<close>, \<open>None\<close> when the page
  has no such element. \<open>pending_tryInitVue\<close> counts the pending timeouts of
  \<^verbatim>\<open>tryInitVue\<close> and \<open>showVueError_calls\<close> the assignments to \<^verbatim>\<open>innerHTML\<close>
  that \<^verbatim>\<open>showVueError\<close> has made.
\<close>

record vue_page =
  initAttempts :: nat
  vue_app :: "root_content option"
  pending_tryInitVue :: nat
  showVueError_calls :: nat

text \<open>
  The surroundings: \<^verbatim>\<open>window.location.protocol\<close> and the global \<^verbatim>\<open>Vue\<close> during
  the attempt that raises \<^verbatim>\<open>initAttempts\<close> to \<open>n\<close>.
\<close>

record vue_env =
  location_protocol :: string
  Vue_at :: "nat \<Rightarrow> vue_global"

definition maxAttempts :: nat where
  "maxAttempts = 10"

definition init_vue_page :: "root_content option \<Rightarrow> vue_page" where
  "init_vue_page rootElement =
     \<lparr>initAttempts = 0, vue_app = rootElement, pending_tryInitVue = 1, showVueError_calls = 0\<rparr>"

definition showVueError :: "vue_env \<Rightarrow> string option \<Rightarrow> vue_page \<Rightarrow> vue_page" where
  "showVueError env errorMessage s =
     (let isLocalFile = (location_protocol env = ''file:'');
          errorHtml = \<lparr>cause = (if isLocalFile then Local_file_hint else Cdn_hint),
                       suggestions_box = isLocalFile,
                       error_line = (case errorMessage of
                                       None \<Rightarrow> None
                                     | Some msg \<Rightarrow> if msg \<noteq> [] then Some msg else None)\<rparr>
      in s\<lparr>vue_app := map_option (\<lambda>old. Fallback errorHtml) (vue_app s),
           showVueError_calls := showVueError_calls s + 1\<rparr>)"

definition initVueApp :: "vue_env \<Rightarrow> vue_page \<Rightarrow> bool \<times> vue_page" where
  "initVueApp env s =
     (case vue_app s of
        None \<Rightarrow> (False, s)
      | Some rootElement \<Rightarrow>
          (case Vue_at env (initAttempts s) of
             Vue_undefined \<Rightarrow> (False, showVueError env None s)
           | Vue_without_createApp \<Rightarrow> (False, showVueError env None s)
           | Vue_mount_throws msg \<Rightarrow> (False, showVueError env (Some msg) s)
           | Vue_ok \<Rightarrow> (True, s\<lparr>vue_app := Some Vue_mounted\<rparr>)))"

text \<open>
  One call of \<^verbatim>\<open>tryInitVue\<close>; \<^verbatim>\<open>setTimeout(tryInitVue, 300)\<close> adds a pending call.
\<close>

definition tryInitVue :: "vue_env \<Rightarrow> vue_page \<Rightarrow> vue_page" where
  "tryInitVue env s =
     (let s1 = s\<lparr>initAttempts := initAttempts s + 1\<rparr>;
          (ok, s2) = initVueApp env s1;
          vue_missing = (Vue_at env (initAttempts s2) = Vue_undefined)
      in if ok then s2
         else if initAttempts s2 < maxAttempts \<and> vue_missing
         then s2\<lparr>pending_tryInitVue := pending_tryInitVue s2 + 1\<rparr>
         else if initAttempts s2 \<ge> maxAttempts
         then (if vue_app s2 \<noteq> None \<and> vue_missing then showVueError env None s2 else s2)
         else s2)"

text \<open>
  \<open>Timeout_fires\<close> runs one pending \<^verbatim>\<open>tryInitVue\<close>; \<open>Window_load\<close> is the
  \<^verbatim>\<open>load\<close> listener, which starts a further call while attempts are left.
\<close>

datatype vue_event = Timeout_fires | Window_load

fun vue_step :: "vue_env \<Rightarrow> vue_page \<Rightarrow> vue_event \<Rightarrow> vue_page" where
  "vue_step env s Timeout_fires =
     (if pending_tryInitVue s > 0
      then tryInitVue env (s\<lparr>pending_tryInitVue := pending_tryInitVue s - 1\<rparr>)
      else s)"
| "vue_step env s Window_load =
     (if initAttempts s < maxAttempts
      then s\<lparr>pending_tryInitVue := pending_tryInitVue s + 1\<rparr>
      else s)"

definition vue_run :: "vue_env \<Rightarrow> vue_page \<Rightarrow> vue_event list \<Rightarrow> vue_page" where
  "vue_run env s evs = foldl (vue_step env) s evs"

definition vue_absent :: "string \<Rightarrow> vue_env" where
  "vue_absent protocol = \<lparr>location_protocol = protocol, Vue_at = (\<lambda>n. Vue_undefined)\<rparr>"

definition expected_panel :: "string \<Rightarrow> fallback_panel" where
  "expected_panel protocol =
     (if protocol = ''file:''
      then \<lparr>cause = Local_file_hint, suggestions_box = True, error_line = None\<rparr>
      else \<lparr>cause = Cdn_hint, suggestions_box = False, error_line = None\<rparr>)"

text \<open>
  The bookkeeping used in the proofs, for a page whose mount element first holds \<open>r\<close>
  and where \<^verbatim>\<open>Vue\<close> stays absent: the element holds the panel from the first
  attempt on, the writes are counted by the attempts, and a call is pending while
  attempts are left.
\<close>

definition vue_inv :: "string \<Rightarrow> root_content \<Rightarrow> vue_page \<Rightarrow> bool" where
  "vue_inv protocol r s \<longleftrightarrow>
     vue_app s = (if initAttempts s = 0 then Some r
                  else Some (Fallback (expected_panel protocol))) \<and>
     showVueError_calls s = initAttempts s + (initAttempts s - 9) \<and>
     (initAttempts s < maxAttempts \<longrightarrow> pending_tryInitVue s \<ge> 1)"

section \<open>React lab page (site configurator)\<close>

text \<open>
  The component state \<^verbatim>\<open>config\<close>. \<^verbatim>\<open>features\<close> is an object; its properties are
  kept in insertion order, which is the order \<^verbatim>\<open>Object.values\<close> walks them.
\<close>

record config =
  style :: string
  layout :: string
  features :: "(string \<times> bool) list"

definition initial_config :: config where
  "initial_config =
     \<lparr>style = ''Minimal'', layout = ''Single page'',
      features = [(''animations'', False), (''contactForm'', False), (''blogSection'', False)]\<rparr>"

fun get_property :: "(string \<times> bool) list \<Rightarrow> string \<Rightarrow> bool option" where
  "get_property [] k = None"
| "get_property ((k', v) # ps) k = (if k' = k then Some v else get_property ps k)"

fun set_property :: "string \<Rightarrow> bool \<Rightarrow> (string \<times> bool) list \<Rightarrow> (string \<times> bool) list" where
  "set_property k v [] = [(k, v)]"
| "set_property k v ((k', v') # ps) =
     (if k' = k then (k, v) # ps else (k', v') # set_property k v ps)"

definition handleStyleChange :: "string \<Rightarrow> config \<Rightarrow> config" where
  "handleStyleChange v c = c\<lparr>style := v\<rparr>"

definition handleLayoutChange :: "string \<Rightarrow> config \<Rightarrow> config" where
  "handleLayoutChange v c = c\<lparr>layout := v\<rparr>"

text \<open>
  \<^verbatim>\<open>[featureName]: !config.features[featureName]\<close>: a property that is not there reads
  as \<^verbatim>\<open>undefined\<close>, whose negation is \<^verbatim>\<open>true\<close>. The component calls the handler
  with its three feature names only.
\<close>

definition handleFeatureToggle :: "string \<Rightarrow> config \<Rightarrow> config" where
  "handleFeatureToggle featureName c =
     c\<lparr>features :=
         set_property featureName
           (case get_property (features c) featureName of None \<Rightarrow> True | Some v \<Rightarrow> \<not> v)
           (features c)\<rparr>"

text \<open>
  \<^verbatim>\<open>calculatePriceRange\<close>: the running \<^verbatim>\<open>basePrice\<close> goes through the two style
  tests, the layout test and the \<^verbatim>\<open>forEach\<close> over the feature values.
\<close>

definition calculatePriceRange :: "config \<Rightarrow> int" where
  "calculatePriceRange c =
     (let basePrice = 1000;
          basePrice = (if style c = ''Colorful'' then basePrice + 200 else basePrice);
          basePrice = (if style c = ''Elegant'' then basePrice + 300 else basePrice);
          basePrice = (if layout c = ''Multi-page'' then basePrice + 500 else basePrice)
      in fold (\<lambda>hasFeature basePrice. if hasFeature then basePrice + 150 else basePrice)
           (map snd (features c)) basePrice)"

text \<open>
  The two numbers of the price line, and the line itself; \<open>fmt\<close> stands for
  \<^verbatim>\<open>toLocaleString\<close>, which depends on the browser's locale.
\<close>

definition price_lower :: "config \<Rightarrow> int" where
  "price_lower c = calculatePriceRange c"

definition price_upper :: "config \<Rightarrow> int" where
  "price_upper c = calculatePriceRange c + 500"

definition price_text :: "(int \<Rightarrow> string) \<Rightarrow> config \<Rightarrow> string" where
  "price_text fmt c = ''$'' @ fmt (price_lower c) @ '' - $'' @ fmt (price_upper c)"

datatype config_event = Style_change string | Layout_change string | Feature_toggle string

fun config_step :: "config \<Rightarrow> config_event \<Rightarrow> config" where
  "config_step c (Style_change v) = handleStyleChange v c"
| "config_step c (Layout_change v) = handleLayoutChange v c"
| "config_step c (Feature_toggle f) = handleFeatureToggle f c"

definition feature_names :: "string list" where
  "feature_names = [''animations'', ''contactForm'', ''blogSection'']"

fun ui_event :: "config_event \<Rightarrow> bool" where
  "ui_event (Style_change v) = True"
| "ui_event (Layout_change v) = True"
| "ui_event (Feature_toggle f) = (f \<in> set feature_names)"

definition enabled_features :: "config \<Rightarrow> nat" where
  "enabled_features c = length (filter snd (features c))"

subsection \<open>Facts about the store\<close>

lemma catalog_ids_eq:
  "catalog_ids = [''micro-interactions'', ''scroll-lab'', ''react-lab'', ''vue-lab'']"
  by (simp add: catalog_ids_def FEATURE_PAGES_def)

lemma getVisitedPages_save:
  "\<not> getItem_throws st \<Longrightarrow> \<not> setItem_throws st \<Longrightarrow>
   getVisitedPages (saveVisitedPages pages st) = pages"
  by (simp add: getVisitedPages_def saveVisitedPages_def)

lemma save_flags:
  "getItem_throws (saveVisitedPages pages st) = getItem_throws st"
  "setItem_throws (saveVisitedPages pages st) = setItem_throws st"
  by (simp_all add: saveVisitedPages_def)

lemma mark_flags:
  "getItem_throws (markPageAsVisited p st) = getItem_throws st"
  "setItem_throws (markPageAsVisited p st) = setItem_throws st"
  by (simp_all add: markPageAsVisited_def Let_def save_flags)

lemma getVisitedPages_mark:
  assumes "\<not> getItem_throws st" and "\<not> setItem_throws st"
  shows "getVisitedPages (markPageAsVisited p st) =
           (if p \<in> set (getVisitedPages st) then getVisitedPages st
            else getVisitedPages st @ [p])"
  using assms by (simp add: markPageAsVisited_def Let_def getVisitedPages_save)

lemma fold_mark_flags:
  "getItem_throws (fold markPageAsVisited ids st) = getItem_throws st \<and>
   setItem_throws (fold markPageAsVisited ids st) = setItem_throws st"
  by (induction ids arbitrary: st) (simp_all add: mark_flags)

lemma fold_mark_set:
  assumes "\<not> getItem_throws st" and "\<not> setItem_throws st"
  shows "set (getVisitedPages (fold markPageAsVisited ids st)) =
           set (getVisitedPages st) \<union> set ids"
  using assms
proof (induction ids arbitrary: st)
  case Nil
  show ?case by simp
next
  case (Cons p ids)
  have "set (getVisitedPages (markPageAsVisited p st)) = insert p (set (getVisitedPages st))"
    using Cons.prems by (auto simp: getVisitedPages_mark)
  moreover have "set (getVisitedPages (fold markPageAsVisited ids (markPageAsVisited p st))) =
      set (getVisitedPages (markPageAsVisited p st)) \<union> set ids"
    using Cons.prems by (intro Cons.IH) (simp_all add: mark_flags)
  ultimately show ?case by simp
qed

lemma fold_mark_distinct:
  assumes "\<not> getItem_throws st" and "\<not> setItem_throws st"
    and "distinct (getVisitedPages st)"
  shows "distinct (getVisitedPages (fold markPageAsVisited ids st))"
  using assms
proof (induction ids arbitrary: st)
  case Nil
  then show ?case by simp
next
  case (Cons p ids)
  have "distinct (getVisitedPages (markPageAsVisited p st))"
    using Cons.prems by (simp add: getVisitedPages_mark)
  then have "distinct (getVisitedPages (fold markPageAsVisited ids (markPageAsVisited p st)))"
    using Cons.prems by (intro Cons.IH) (simp_all add: mark_flags)
  then show ?case by simp
qed

lemma empty_storage_simps:
  "\<not> getItem_throws empty_storage" "\<not> setItem_throws empty_storage"
  "getVisitedPages empty_storage = []"
  by (simp_all add: empty_storage_def getVisitedPages_def)


lemma mark_idem:
  "markPageAsVisited p (markPageAsVisited p st) = markPageAsVisited p st"
  by (cases "items st STORAGE_KEY")
     (auto simp: markPageAsVisited_def saveVisitedPages_def getVisitedPages_def Let_def
           split: stored_text.splits)

lemma nat_cases4:
  fixes n :: nat
  assumes "n \<le> 4"
  obtains "n = 0" | "n = 1" | "n = 2" | "n = 3" | "n = 4"
  using assms by linarith

lemma Math_round_of_int:
  "Math_round (real_of_int k) = k"
  unfolding Math_round_def by linarith


section \<open>Properties of the progress tracker\<close>

text \<open>
  C1, as the specification states it: for every page id outside the catalog of four ids,
  \<^verbatim>\<open>markPageAsVisited\<close> leaves the persisted list as it was. The function never
  consults the catalog: on an empty, working store the id \<^verbatim>\<open>about\<close>, which is not a
  catalog id, is written.
\<close>

theorem markPageAsVisited_unknown_id_stored:
  "''about'' \<notin> set catalog_ids \<and>
   items (markPageAsVisited ''about'' empty_storage) STORAGE_KEY \<noteq>
     items empty_storage STORAGE_KEY \<and>
   getVisitedPages (markPageAsVisited ''about'' empty_storage) \<noteq>
     getVisitedPages empty_storage"
  by (simp add: catalog_ids_eq markPageAsVisited_def saveVisitedPages_def getVisitedPages_def
      empty_storage_def STORAGE_KEY_def Let_def)

text \<open>
  C1, amended: \<^verbatim>\<open>markPageAsVisited\<close> treats a page id outside the catalog like any
  other id. It leaves the store untouched when the id is already in the stored list or
  when the store refuses the write; otherwise it stores the list with the id appended.
  On a store that accepts reads and writes the list read back afterwards holds the id
  together with the ids it held before, and \<^verbatim>\<open>isPageVisited\<close> reports the id.
\<close>

theorem markPageAsVisited_outside_catalog:
  assumes "pageId \<notin> set catalog_ids"
  shows "(pageId \<in> set (getVisitedPages st) \<or> setItem_throws st \<longrightarrow>
            markPageAsVisited pageId st = st) \<and>
         (pageId \<notin> set (getVisitedPages st) \<and> \<not> setItem_throws st \<longrightarrow>
            items (markPageAsVisited pageId st) STORAGE_KEY =
              Some (Array_text (getVisitedPages st @ [pageId]))) \<and>
         (\<not> getItem_throws st \<and> \<not> setItem_throws st \<longrightarrow>
            set (getVisitedPages (markPageAsVisited pageId st)) =
              insert pageId (set (getVisitedPages st)) \<and>
            isPageVisited pageId (markPageAsVisited pageId st))"
proof -
  have same: "pageId \<in> set (getVisitedPages st) \<or> setItem_throws st \<longrightarrow>
      markPageAsVisited pageId st = st"
    by (simp add: markPageAsVisited_def saveVisitedPages_def Let_def)
  have stored: "pageId \<notin> set (getVisitedPages st) \<and> \<not> setItem_throws st \<longrightarrow>
      items (markPageAsVisited pageId st) STORAGE_KEY =
        Some (Array_text (getVisitedPages st @ [pageId]))"
    by (simp add: markPageAsVisited_def saveVisitedPages_def Let_def)
  have readback: "\<not> getItem_throws st \<and> \<not> setItem_throws st \<longrightarrow>
      set (getVisitedPages (markPageAsVisited pageId st)) =
        insert pageId (set (getVisitedPages st)) \<and>
      isPageVisited pageId (markPageAsVisited pageId st)"
    by (auto simp: getVisitedPages_mark isPageVisited_def)
  from same stored readback show ?thesis
    by (intro conjI)
qed

theorem markPageAsVisited_outside_catalog_witness:
  "''about'' \<notin> set catalog_ids \<and>
   items (markPageAsVisited ''about'' empty_storage) STORAGE_KEY = Some (Array_text [''about'']) \<and>
   isPageVisited ''about'' (markPageAsVisited ''about'' empty_storage) \<and>
   markPageAsVisited ''about'' (markPageAsVisited ''about'' empty_storage) =
     markPageAsVisited ''about'' empty_storage"
proof -
  have out: "''about'' \<notin> set catalog_ids"
    by (simp add: catalog_ids_eq)
  let ?st = "markPageAsVisited ''about'' empty_storage"
  have first: "items ?st STORAGE_KEY = Some (Array_text [''about''])"
    and visited: "isPageVisited ''about'' ?st"
    using markPageAsVisited_outside_catalog [OF out, of empty_storage]
    by (simp_all add: empty_storage_simps)
  have "''about'' \<in> set (getVisitedPages ?st)"
    using visited by (simp add: isPageVisited_def)
  then have "markPageAsVisited ''about'' ?st = ?st"
    using markPageAsVisited_outside_catalog [OF out, of ?st] by simp
  with out first visited show ?thesis by simp
qed

text \<open>
  C4: starting from the empty store, which accepts reads and writes, after any finite
  sequence of \<^verbatim>\<open>markPageAsVisited\<close> calls with catalog ids,
  \<^verbatim>\<open>getVisitedPages\<close> returns a list without duplicates whose elements are exactly the ids passed; hence any other sequence
  with the same ids, in any order and with any repetition, gives the same set; and
  marking a page twice in a row is the same as marking it once.
\<close>

theorem markPageAsVisited_sequence:
  assumes "set ids \<subseteq> set catalog_ids"
  shows "distinct (getVisitedPages (fold markPageAsVisited ids empty_storage)) \<and>
         set (getVisitedPages (fold markPageAsVisited ids empty_storage)) = set ids \<and>
         (\<forall>ids'. set ids' = set ids \<longrightarrow>
            set (getVisitedPages (fold markPageAsVisited ids' empty_storage)) =
            set (getVisitedPages (fold markPageAsVisited ids empty_storage))) \<and>
         (\<forall>p st. markPageAsVisited p (markPageAsVisited p st) = markPageAsVisited p st)"
proof -
  have d: "distinct (getVisitedPages (fold markPageAsVisited ids empty_storage))"
    by (rule fold_mark_distinct) (simp_all add: empty_storage_simps)
  have s: "set (getVisitedPages (fold markPageAsVisited xs empty_storage)) = set xs" for xs
    using fold_mark_set [of empty_storage xs] by (simp add: empty_storage_simps)
  have i: "markPageAsVisited p (markPageAsVisited p st) = markPageAsVisited p st" for p st
    by (rule mark_idem)
  from d s i show ?thesis by simp
qed

theorem markPageAsVisited_sequence_witness:
  "set [''vue-lab'', ''scroll-lab'', ''vue-lab''] \<subseteq> set catalog_ids \<and>
   distinct (getVisitedPages
     (fold markPageAsVisited [''vue-lab'', ''scroll-lab'', ''vue-lab''] empty_storage)) \<and>
   set (getVisitedPages
     (fold markPageAsVisited [''vue-lab'', ''scroll-lab'', ''vue-lab''] empty_storage)) =
     {''vue-lab'', ''scroll-lab''}"
proof -
  have sub: "set [''vue-lab'', ''scroll-lab'', ''vue-lab''] \<subseteq> set catalog_ids"
    by (simp add: catalog_ids_eq)
  show ?thesis
    using sub markPageAsVisited_sequence [OF sub] by auto
qed

text \<open>
  C5: \<^verbatim>\<open>getProgressStats\<close> returns \<open>total = 4\<close>, the percentage
  \<open>round (100 * visitedCount / total)\<close> and \<open>allVisited\<close> exactly when
  \<open>visitedCount = total\<close>, where \<open>visitedCount\<close> is the length of the stored list;
  for a count from 0 to 4 the percentage is 25 times the count; and on the empty store the
  result is \<open>visitedCount = 0\<close>, \<open>total = 4\<close>, \<open>percentage = 0\<close>,
  \<open>allVisited = False\<close>.
\<close>

theorem getProgressStats_correct:
  "visitedCount (getProgressStats st) = length (getVisitedPages st) \<and>
   total (getProgressStats st) = 4 \<and>
   percentage (getProgressStats st) =
     round (100 * real (visitedCount (getProgressStats st)) / real (total (getProgressStats st))) \<and>
   (allVisited (getProgressStats st) \<longleftrightarrow>
      visitedCount (getProgressStats st) = total (getProgressStats st)) \<and>
   (visitedCount (getProgressStats st) \<in> {0..4} \<longrightarrow>
      percentage (getProgressStats st) = 25 * int (visitedCount (getProgressStats st)) \<and>
      percentage (getProgressStats st) \<in> {0, 25, 50, 75, 100}) \<and>
   getProgressStats empty_storage =
     \<lparr>visitedCount = 0, total = 4, percentage = 0, allVisited = False\<rparr>"
proof -
  have len: "length FEATURE_PAGES = 4"
    by (simp add: FEATURE_PAGES_def)
  have q: "real n / real 4 * 100 = real_of_int (25 * int n)" for n
    by simp
  have r: "Math_round (real n / real 4 * 100) = 25 * int n" for n
    unfolding q by (rule Math_round_of_int)
  have r': "round (100 * real n / 4) = 25 * int n" for n
  proof -
    have "100 * real n / 4 = real_of_int (25 * int n)" by simp
    then show ?thesis by (simp only: round_of_int)
  qed
  have p: "percentage (getProgressStats st) = 25 * int (length (getVisitedPages st))"
    unfolding getProgressStats_def Let_def len by (simp only: r progress_stats.simps) simp
  have v: "visitedCount (getProgressStats st) = length (getVisitedPages st)"
    by (simp add: getProgressStats_def Let_def)
  have t: "total (getProgressStats st) = 4"
    by (simp add: getProgressStats_def Let_def len)
  have a: "allVisited (getProgressStats st) \<longleftrightarrow> length (getVisitedPages st) = 4"
    by (simp add: getProgressStats_def Let_def len)
  have e: "getProgressStats empty_storage =
     \<lparr>visitedCount = 0, total = 4, percentage = 0, allVisited = False\<rparr>"
    by (simp add: getProgressStats_def Let_def len empty_storage_simps Math_round_def)
  have range: "length (getVisitedPages st) \<le> 4 \<Longrightarrow>
      25 * int (length (getVisitedPages st)) \<in> {0, 25, 50, 75, 100}"
    by (cases "length (getVisitedPages st)" rule: nat_cases4) auto
  show ?thesis
    using p v t a e r' range by simp
qed

theorem getProgressStats_correct_witness:
  "visitedCount (getProgressStats (saveVisitedPages [''scroll-lab''] empty_storage)) \<in> {0..4} \<and>
   getProgressStats (saveVisitedPages [''scroll-lab''] empty_storage) =
     \<lparr>visitedCount = 1, total = 4, percentage = 25, allVisited = False\<rparr>"
proof -
  let ?st = "saveVisitedPages [''scroll-lab''] empty_storage"
  have g: "getVisitedPages ?st = [''scroll-lab'']"
    by (simp add: getVisitedPages_save empty_storage_simps)
  show ?thesis
    using getProgressStats_correct [of ?st] g
    by (cases "getProgressStats ?st") simp
qed


section \<open>Properties of the micro interactions page\<close>

lemmas micro_defs =
  button_mouseenter_def button_click_def button_mouseleave_def flipCard_mouseenter_def
  flipCard_mouseleave_def toggle_change_def trigger_mouseenter_def trigger_mouseleave_def
  showInteractionMessage_def showEasterEgg_def appendChild_def remove_node_def
  set_visible_def setTimeout_def Let_def

lemmas eval_defs = micro_defs init_micro_page_def easter_eggs_shown_def easter_egg_requests_def
  banners_shown_def message_shown_def interaction_message_key_def states_def
  updateButtonState_def tooltip_overlays_def working_session_def blocked_session_def
  full_session_def store_works_def banner_def

lemma micro_run_Nil [simp]: "micro_run s [] = s"
  by (simp add: micro_run_def)

lemma micro_run_Cons [simp]: "micro_run s (e # evs) = micro_run (micro_step s e) evs"
  by (simp add: micro_run_def)

lemma micro_run_append: "micro_run s (xs @ ys) = micro_run (micro_run s xs) ys"
  by (simp add: micro_run_def)

lemma clicks_simps [simp]:
  "clicks [] = 0"
  "clicks (e # evs) = (if e = Button_click then 1 else 0) + clicks evs"
  by (simp_all add: clicks_def)

subsection \<open>What a request of the message leaves alone\<close>

lemma request_fields [simp]:
  "clickCount (state_of (showInteractionMessage m s)) = clickCount s"
  "currentState (state_of (showInteractionMessage m s)) = currentState s"
  "stateButton (state_of (showInteractionMessage m s)) = stateButton s"
  "tooltip (state_of (showInteractionMessage m s)) = tooltip s"
  "session_getItem_throws (sessionStorage (state_of (showInteractionMessage m s))) =
     session_getItem_throws (sessionStorage s)"
  "session_setItem_throws (sessionStorage (state_of (showInteractionMessage m s))) =
     session_setItem_throws (sessionStorage s)"
  "filter is_easter_egg_timer (setTimeout_log (state_of (showInteractionMessage m s))) =
     filter is_easter_egg_timer (setTimeout_log s)"
  "filter is_easter_egg_timer (timers (state_of (showInteractionMessage m s))) =
     filter is_easter_egg_timer (timers s)"
  "filter (\<lambda>el. className el = ''easter-egg'')
     (appendChild_log (state_of (showInteractionMessage m s))) =
   filter (\<lambda>el. className el = ''easter-egg'') (appendChild_log s)"
  by (simp_all add: micro_defs)

lemma outcome_case_eq:
  "(case r of Returns s \<Rightarrow> g s | Raises s \<Rightarrow> f s) =
     (if raised r then f (state_of r) else g (state_of r))"
  by (cases r) simp_all

lemma outcome_eq:
  "r = (if raised r then Raises (state_of r) else Returns (state_of r))"
  by (cases r) simp_all

lemma request_raised:
  "raised (showInteractionMessage m s) \<longleftrightarrow>
     session_getItem_throws (sessionStorage s) \<or>
     \<not> message_shown s \<and> session_setItem_throws (sessionStorage s)"
  by (simp add: micro_defs)

lemma request_returns:
  "store_works (sessionStorage s) \<Longrightarrow> \<not> raised (showInteractionMessage m s)"
  by (simp add: request_raised store_works_def)

lemma button_click_eq:
  "button_click s =
     (let s1 = s\<lparr>clickCount := clickCount s + 1\<rparr>;
          s1' = s1\<lparr>currentState := 2,
                  stateButton := updateButtonState (stateButton s1) (states ! 2)\<rparr>;
          r = showInteractionMessage first_interaction_message s1'
      in if currentState s = 1
         then (if raised r then state_of r
               else if clickCount s = 4
                    then setTimeout (Show_easter_egg easter_egg_message) (state_of r)
                    else state_of r)
         else (if clickCount s = 4 then setTimeout (Show_easter_egg easter_egg_message) s1
               else s1))"
  by (simp add: button_click_def Let_def outcome_case_eq)

lemma run_timer_fields [simp]:
  "clickCount (run_timer t s) = clickCount s"
  "currentState (run_timer t s) = currentState s"
  "stateButton (run_timer t s) = stateButton s"
  "sessionStorage (run_timer t s) = sessionStorage s"
  "filter is_easter_egg_timer (setTimeout_log (run_timer t s)) =
     filter is_easter_egg_timer (setTimeout_log s)"
  "filter (\<lambda>el. className el = ''interaction-message'') (appendChild_log (run_timer t s)) =
     filter (\<lambda>el. className el = ''interaction-message'') (appendChild_log s)"
  by (cases t; simp add: micro_defs)+




subsection \<open>The click counter and the easter egg\<close>

lemma button_click_clickCount:
  "clickCount (button_click s) = clickCount s + 1"
  by (simp add: button_click_eq Let_def setTimeout_def)

lemma micro_step_clickCount:
  "clickCount (micro_step s e) = clickCount s + (if e = Button_click then 1 else 0)"
proof (cases e)
  case Button_click
  then show ?thesis by (simp add: button_click_clickCount)
qed (simp_all add: button_mouseenter_def button_mouseleave_def flipCard_mouseenter_def
       flipCard_mouseleave_def toggle_change_def trigger_mouseenter_def trigger_mouseleave_def
       remove_node_def appendChild_def Let_def split: option.splits)

lemma micro_run_clickCount:
  "clickCount (micro_run s evs) = clickCount s + clicks evs"
  by (induction evs arbitrary: s) (simp_all add: micro_step_clickCount)

lemma other_step_requests:
  "e \<noteq> Button_click \<Longrightarrow> easter_egg_requests (micro_step s e) = easter_egg_requests s"
  by (cases e)
     (simp_all add: easter_egg_requests_def button_mouseenter_def button_mouseleave_def
        flipCard_mouseenter_def flipCard_mouseleave_def toggle_change_def trigger_mouseenter_def
        trigger_mouseleave_def remove_node_def appendChild_def Let_def split: option.splits)

lemma setTimeout_requests:
  "easter_egg_requests (setTimeout (Show_easter_egg m) s) =
     easter_egg_requests s @ [Show_easter_egg m]"
  by (simp add: easter_egg_requests_def setTimeout_def)

lemma request_requests [simp]:
  "easter_egg_requests (state_of (showInteractionMessage m s)) = easter_egg_requests s"
  by (simp add: easter_egg_requests_def)

lemma requests_update [simp]:
  "easter_egg_requests (s\<lparr>clickCount := c\<rparr>) = easter_egg_requests s"
  "easter_egg_requests (s\<lparr>currentState := d\<rparr>) = easter_egg_requests s"
  "easter_egg_requests (s\<lparr>stateButton := e\<rparr>) = easter_egg_requests s"
  by (simp_all add: easter_egg_requests_def)


lemma button_click_requests:
  assumes "store_works (sessionStorage s) \<or> currentState s \<noteq> 1"
  shows "easter_egg_requests (button_click s) =
     easter_egg_requests s @
       (if clickCount s = 4 then [Show_easter_egg easter_egg_message] else [])"
proof (cases "currentState s = 1")
  case True
  then have "store_works (sessionStorage s)"
    using assms by simp
  then have "\<not> raised (showInteractionMessage first_interaction_message
      (s\<lparr>clickCount := clickCount s + 1, currentState := 2,
         stateButton := updateButtonState (stateButton s) (states ! 2)\<rparr>))"
    by (intro request_returns) simp
  with True show ?thesis
    by (simp add: button_click_eq Let_def setTimeout_requests)
next
  case False
  then show ?thesis
    by (simp add: button_click_eq Let_def setTimeout_requests)
qed





lemma egg_balance_update [simp]:
  "egg_balance (s\<lparr>clickCount := c\<rparr>) = egg_balance s"
  "egg_balance (s\<lparr>currentState := d\<rparr>) = egg_balance s"
  "egg_balance (s\<lparr>stateButton := e\<rparr>) = egg_balance s"
  by (simp_all add: egg_balance_def pending_easter_eggs_def easter_eggs_shown_def
      easter_egg_requests_def)






lemma init_fields [simp]:
  "clickCount (init_micro_page b th ss) = 0"
  "currentState (init_micro_page b th ss) = 0"
  "stateButton (init_micro_page b th ss) = b"
  "easter_egg_requests (init_micro_page b th ss) = []"
  "easter_eggs_shown (init_micro_page b th ss) = []"
  "banners_shown (init_micro_page b th ss) = []"
  "sessionStorage (init_micro_page b th ss) = ss"
  "tooltip (init_micro_page b th ss) = (\<lambda>t. None)"
  "body (init_micro_page b th ss) = []"
  by (simp_all add: init_micro_page_def easter_egg_requests_def easter_eggs_shown_def
      banners_shown_def)




subsection \<open>The interaction message\<close>




lemma request_store_works [simp]:
  "store_works (sessionStorage (state_of (showInteractionMessage m s))) =
     store_works (sessionStorage s)"
  by (simp add: store_works_def)


lemma banner_inv_update [simp]:
  "banner_inv (s\<lparr>flipped := x\<rparr>) = banner_inv s"
  "banner_inv (s\<lparr>dark_theme := y\<rparr>) = banner_inv s"
  "banner_inv (s\<lparr>theme_text := z\<rparr>) = banner_inv s"
  "banner_inv (s\<lparr>clickCount := c\<rparr>) = banner_inv s"
  "banner_inv (s\<lparr>currentState := d\<rparr>) = banner_inv s"
  "banner_inv (s\<lparr>stateButton := e\<rparr>) = banner_inv s"
  "banner_inv (s\<lparr>timers := f\<rparr>) = banner_inv s"
  "banner_inv (s\<lparr>tooltip := g\<rparr>) = banner_inv s"
  "banner_inv (s\<lparr>next_node := h\<rparr>) = banner_inv s"
  "banner_inv (setTimeout t s) = banner_inv s"
  "banner_inv (remove_node n s) = banner_inv s"
  by (simp_all add: banner_inv_def message_shown_def banners_shown_def setTimeout_def
      remove_node_def)






lemma message_shown_update [simp]:
  "message_shown (s\<lparr>flipped := x\<rparr>) = message_shown s"
  "message_shown (s\<lparr>dark_theme := y\<rparr>) = message_shown s"
  "message_shown (s\<lparr>theme_text := z\<rparr>) = message_shown s"
  "message_shown (s\<lparr>clickCount := c\<rparr>) = message_shown s"
  "message_shown (s\<lparr>currentState := d\<rparr>) = message_shown s"
  "message_shown (s\<lparr>stateButton := e\<rparr>) = message_shown s"
  "message_shown (s\<lparr>timers := f\<rparr>) = message_shown s"
  "message_shown (s\<lparr>tooltip := g\<rparr>) = message_shown s"
  "message_shown (s\<lparr>next_node := h\<rparr>) = message_shown s"
  "message_shown (setTimeout t s) = message_shown s"
  "message_shown (remove_node n s) = message_shown s"
  "message_shown (appendChild el s) = message_shown s"
  by (simp_all add: message_shown_def setTimeout_def remove_node_def appendChild_def)

lemma banners_shown_update [simp]:
  "banners_shown (s\<lparr>flipped := x\<rparr>) = banners_shown s"
  "banners_shown (s\<lparr>dark_theme := y\<rparr>) = banners_shown s"
  "banners_shown (s\<lparr>theme_text := z\<rparr>) = banners_shown s"
  "banners_shown (s\<lparr>clickCount := c\<rparr>) = banners_shown s"
  "banners_shown (s\<lparr>currentState := d\<rparr>) = banners_shown s"
  "banners_shown (s\<lparr>stateButton := e\<rparr>) = banners_shown s"
  "banners_shown (s\<lparr>timers := f\<rparr>) = banners_shown s"
  "banners_shown (s\<lparr>tooltip := g\<rparr>) = banners_shown s"
  "banners_shown (s\<lparr>next_node := h\<rparr>) = banners_shown s"
  "banners_shown (setTimeout t s) = banners_shown s"
  "banners_shown (remove_node n s) = banners_shown s"
  by (simp_all add: banners_shown_def setTimeout_def remove_node_def)








lemma tags_simps [simp]:
  "tags (s\<lparr>flipped := x\<rparr>) = tags s"
  "tags (s\<lparr>dark_theme := y\<rparr>) = tags s"
  "tags (s\<lparr>theme_text := z\<rparr>) = tags s"
  "tags (s\<lparr>clickCount := c\<rparr>) = tags s"
  "tags (s\<lparr>currentState := d\<rparr>) = tags s"
  "tags (s\<lparr>stateButton := e\<rparr>) = tags s"
  "tags (s\<lparr>setTimeout_log := f\<rparr>) = tags s"
  "tags (s\<lparr>appendChild_log := g\<rparr>) = tags s"
  "tags (s\<lparr>sessionStorage := h\<rparr>) = tags s"
  "tags (s\<lparr>timers := i\<rparr>) = tags s"
  "tags (s\<lparr>tooltip := j\<rparr>) = tags s"
  "tags (s\<lparr>next_node := k\<rparr>) = tags s"
  "tags (s\<lparr>body := bs\<rparr>) = map (\<lambda>el. (node_id el, className el)) bs"
  by (simp_all add: tags_def)

lemma tags_set_visible [simp]: "tags (set_visible n v s) = tags s"
  by (simp add: tags_def set_visible_def comp_def if_distrib [of node_id] if_distrib [of className] cong: if_cong)

lemma tags_remove_node [simp]: "tags (remove_node n s) = filter (\<lambda>p. fst p \<noteq> n) (tags s)"
  by (simp add: tags_def remove_node_def filter_map comp_def)

lemma tags_appendChild [simp]:
  "tags (appendChild el s) = tags s @ [(node_id el, className el)]"
  by (simp add: tags_def appendChild_def)

lemma tags_setTimeout [simp]: "tags (setTimeout t s) = tags s"
  by (simp add: setTimeout_def)

lemma other_fields [simp]:
  "next_node (set_visible n v s) = next_node s"
  "timers (set_visible n v s) = timers s"
  "tooltip (set_visible n v s) = tooltip s"
  "next_node (remove_node n s) = next_node s"
  "timers (remove_node n s) = timers s"
  "tooltip (remove_node n s) = tooltip s"
  "next_node (appendChild el s) = next_node s"
  "timers (appendChild el s) = timers s"
  "tooltip (appendChild el s) = tooltip s"
  "next_node (setTimeout t s) = next_node s"
  "timers (setTimeout t s) = timers s @ [t]"
  "tooltip (setTimeout t s) = tooltip s"
  by (simp_all add: set_visible_def remove_node_def appendChild_def setTimeout_def)

lemma tip_inv_init: "tip_inv (init_micro_page b th ss)"
  by (simp add: tip_inv_def init_micro_page_def tags_def)

lemma tip_inv_irrelevant [simp]:
  "tip_inv (s\<lparr>flipped := x\<rparr>) = tip_inv s"
  "tip_inv (s\<lparr>dark_theme := y\<rparr>) = tip_inv s"
  "tip_inv (s\<lparr>theme_text := z\<rparr>) = tip_inv s"
  "tip_inv (s\<lparr>clickCount := c\<rparr>) = tip_inv s"
  "tip_inv (s\<lparr>currentState := d\<rparr>) = tip_inv s"
  "tip_inv (s\<lparr>stateButton := e\<rparr>) = tip_inv s"
  "tip_inv (s\<lparr>setTimeout_log := f\<rparr>) = tip_inv s"
  "tip_inv (s\<lparr>appendChild_log := g\<rparr>) = tip_inv s"
  "tip_inv (s\<lparr>sessionStorage := h\<rparr>) = tip_inv s"
  by (simp_all add: tip_inv_def)

lemma tip_inv_set_visible [simp]: "tip_inv (set_visible n v s) = tip_inv s"
  by (simp add: tip_inv_def)

lemma tip_inv_new_node:
  assumes "tip_inv s" and "c \<noteq> ''tooltip''"
  shows "tip_inv (appendChild \<lparr>node_id = next_node s, className = c, content = m, visible = v\<rparr>
           (s\<lparr>next_node := next_node s + 1\<rparr>))"
  using assms unfolding tip_inv_def
  by (auto simp: less_Suc_eq dest: less_imp_neq)

lemma tip_inv_setTimeout_other:
  assumes "tip_inv s" and "\<And>n. t \<noteq> Hide_message n" and "\<And>n. t \<noteq> Remove_message n"
  shows "tip_inv (setTimeout t s)"
  using assms unfolding tip_inv_def by auto

lemma tip_inv_setTimeout_id:
  assumes "tip_inv s" and "n < next_node s" and "\<And>t. tooltip s t \<noteq> Some n"
  shows "tip_inv (setTimeout (Hide_message n) s)" and "tip_inv (setTimeout (Remove_message n) s)"
  using assms unfolding tip_inv_def by auto

lemma tip_inv_showInteractionMessage:
  assumes "tip_inv s"
  shows "tip_inv (state_of (showInteractionMessage m s))"
proof (cases "session_getItem_throws (sessionStorage s) \<or> message_shown s")
  case True
  with assms show ?thesis by (auto simp: showInteractionMessage_def)
next
  case False
  let ?s1 = "appendChild \<lparr>node_id = next_node s, className = ''interaction-message'',
      content = m, visible = False\<rparr> (s\<lparr>next_node := next_node s + 1\<rparr>)"
  have 1: "tip_inv ?s1"
    using assms by (rule tip_inv_new_node) simp
  have 2: "tip_inv (setTimeout (Add_visible (next_node s)) ?s1)"
    using 1 by (rule tip_inv_setTimeout_other) simp_all
  have fresh: "tooltip s t \<noteq> Some (next_node s)" for t
    using assms unfolding tip_inv_def by (metis less_irrefl)
  have 3: "tip_inv (setTimeout (Hide_message (next_node s))
      (setTimeout (Add_visible (next_node s)) ?s1))"
    using 2 by (rule tip_inv_setTimeout_id) (simp_all add: fresh)
  then show ?thesis
    using False by (simp add: showInteractionMessage_def Let_def)
qed

lemma tip_inv_trigger_mouseenter:
  assumes "tip_inv s" and "tooltip s t = None"
  shows "tip_inv (trigger_mouseenter t tip s)"
proof -
  let ?s1 = "appendChild \<lparr>node_id = next_node s, className = ''tooltip'', content = tip,
      visible = False\<rparr> (s\<lparr>next_node := next_node s + 1,
        tooltip := (tooltip s)(t := Some (next_node s))\<rparr>)"
  have "tip_inv ?s1"
    using assms unfolding tip_inv_def
    by (auto simp: less_Suc_eq dest: less_imp_neq) (metis option.distinct(1))
  then show ?thesis
    by (simp add: trigger_mouseenter_def Let_def tip_inv_showInteractionMessage)
qed

lemma tip_inv_trigger_mouseleave:
  assumes "tip_inv s"
  shows "tip_inv (trigger_mouseleave t s)"
proof (cases "tooltip s t")
  case None
  with assms show ?thesis by (simp add: trigger_mouseleave_def)
next
  case (Some n)
  with assms show ?thesis
    unfolding tip_inv_def trigger_mouseleave_def
    by (auto simp: distinct_map_filter) (metis option.inject)+
qed

lemma set_take_drop_subset:
  "set (take k xs @ drop (Suc k) xs) \<subseteq> set xs"
  by (auto dest: in_set_takeD in_set_dropD)

lemma tip_inv_timers_subset:
  assumes "tip_inv s" and "set ts \<subseteq> set (timers s)"
  shows "tip_inv (s\<lparr>timers := ts\<rparr>)"
  using assms unfolding tip_inv_def by (simp add: subset_iff)

lemma tip_inv_remove_other:
  assumes "tip_inv s" and "\<And>t. tooltip s t \<noteq> Some n"
  shows "tip_inv (remove_node n s)"
  using assms unfolding tip_inv_def
  by (simp add: distinct_map_filter) metis

lemma tip_inv_timer:
  assumes "tip_inv s" and "k < length (timers s)"
  shows "tip_inv (run_timer (timers s ! k)
           (s\<lparr>timers := take k (timers s) @ drop (Suc k) (timers s)\<rparr>))"
proof -
  let ?s' = "s\<lparr>timers := take k (timers s) @ drop (Suc k) (timers s)\<rparr>"
  have mem: "timers s ! k \<in> set (timers s)"
    using assms(2) by simp
  have inv': "tip_inv ?s'"
    using assms(1) set_take_drop_subset by (rule tip_inv_timers_subset)
  show ?thesis
  proof (cases "timers s ! k")
    case (Show_easter_egg m)
    have "tip_inv (appendChild \<lparr>node_id = next_node ?s', className = ''easter-egg'',
        content = m, visible = False\<rparr> (?s'\<lparr>next_node := next_node ?s' + 1\<rparr>))"
      using inv' by (rule tip_inv_new_node) simp
    then have "tip_inv (showEasterEgg m ?s')"
      unfolding showEasterEgg_def Let_def
      by (rule tip_inv_setTimeout_other) simp_all
    then show ?thesis by (simp add: Show_easter_egg)
  next
    case (Add_visible n)
    with inv' show ?thesis by simp
  next
    case (Hide_message n)
    have n: "n < next_node s" "\<And>t. tooltip s t \<noteq> Some n"
      using assms(1) mem unfolding Hide_message tip_inv_def by blast+
    have "tip_inv (setTimeout (Remove_message n) (set_visible n False ?s'))"
      by (rule tip_inv_setTimeout_id) (simp_all add: inv' n)
    then show ?thesis by (simp add: Hide_message)
  next
    case (Remove_message n)
    have n: "\<And>t. tooltip s t \<noteq> Some n"
      using assms(1) mem unfolding Remove_message tip_inv_def by blast
    have "tip_inv (remove_node n ?s')"
      using inv' by (rule tip_inv_remove_other) (simp add: n)
    then show ?thesis by (simp add: Remove_message)
  qed
qed

lemma tip_inv_dismiss:
  assumes "tip_inv s"
  shows "tip_inv (micro_step s (Dismiss_click n))"
proof (cases "n \<in> set (map node_id (filter (\<lambda>el. className el = ''easter-egg'') (body s)))")
  case False
  with assms show ?thesis by simp
next
  case True
  then have egg: "(n, ''easter-egg'') \<in> set (tags s)"
    by (auto simp: tags_def)
  have no_tip: "tooltip s t \<noteq> Some n" for t
  proof
    assume "tooltip s t = Some n"
    then have "(n, ''tooltip'') \<in> set (tags s)"
      using assms unfolding tip_inv_def by blast
    moreover have "distinct (map fst (tags s))"
      using assms unfolding tip_inv_def by blast
    ultimately have "''tooltip'' = ''easter-egg''"
      using egg by (meson eq_key_imp_eq_value)
    then show False by simp
  qed
  have "tip_inv (remove_node n s)"
    using assms by (rule tip_inv_remove_other) (rule no_tip)
  with True show ?thesis by simp
qed

lemma tip_inv_step:
  assumes "tip_inv s"
    and "case e of Trigger_mouseenter t tip \<Rightarrow> tooltip s t = None | _ \<Rightarrow> True"
  shows "tip_inv (micro_step s e)"
proof (cases e)
  case (Trigger_mouseenter t tip)
  with assms show ?thesis by (simp add: tip_inv_trigger_mouseenter)
next
  case (Trigger_mouseleave t)
  with assms show ?thesis by (simp add: tip_inv_trigger_mouseleave)
next
  case (Timer_fires k)
  with assms show ?thesis by (simp add: tip_inv_timer)
next
  case (Dismiss_click n)
  with assms show ?thesis by (simp only: tip_inv_dismiss)
next
  case Button_click
  have egg: "tip_inv s' \<Longrightarrow> tip_inv (setTimeout (Show_easter_egg m) s')" for m s'
    by (rule tip_inv_setTimeout_other) simp_all
  from assms show ?thesis
    unfolding Button_click
    by (simp add: button_click_eq Let_def tip_inv_showInteractionMessage egg)
qed (use assms in \<open>simp_all add: button_mouseenter_def button_mouseleave_def
       flipCard_mouseenter_def flipCard_mouseleave_def toggle_change_def
       Let_def tip_inv_showInteractionMessage split: option.splits\<close>)

lemma tip_inv_run:
  "tip_inv s \<Longrightarrow> enters_alternate s evs \<Longrightarrow> tip_inv (micro_run s evs)"
proof (induction evs arbitrary: s)
  case Nil
  then show ?case by simp
next
  case (Cons e evs)
  then show ?case by (simp add: tip_inv_step)
qed

lemma tooltip_overlay_ids:
  "map node_id (tooltip_overlays s) = map fst (filter (\<lambda>p. snd p = ''tooltip'') (tags s))"
  by (simp add: tooltip_overlays_def tags_def filter_map comp_def)

lemma tip_inv_count:
  assumes "tip_inv s"
  shows "distinct (map node_id (tooltip_overlays s))"
    and "set (map node_id (tooltip_overlays s)) = ran (tooltip s)"
    and "length (tooltip_overlays s) = card (hovered s)"
proof -
  show d: "distinct (map node_id (tooltip_overlays s))"
    using assms unfolding tip_inv_def tooltip_overlay_ids
    by (simp add: distinct_map_filter)
  show r: "set (map node_id (tooltip_overlays s)) = ran (tooltip s)"
    using assms unfolding tip_inv_def tooltip_overlay_ids ran_def
    by (auto simp: image_iff)
  have inj: "inj_on (tooltip s) (dom (tooltip s))"
    using assms unfolding tip_inv_def inj_on_def by (metis domIff option.exhaust)
  have "card (dom (tooltip s)) = card (ran (tooltip s))"
  proof -
    have "ran (tooltip s) = the ` (tooltip s ` dom (tooltip s))"
      by (auto simp: ran_def image_iff dom_def) force
    moreover have "inj_on the (tooltip s ` dom (tooltip s))"
      by (auto simp: inj_on_def)
    ultimately show ?thesis
      using inj by (simp add: card_image)
  qed
  also have "\<dots> = card (set (map node_id (tooltip_overlays s)))"
    by (simp only: r)
  also have "\<dots> = length (map node_id (tooltip_overlays s))"
    using d by (rule distinct_card)
  finally show "length (tooltip_overlays s) = card (hovered s)"
    by (simp add: hovered_def)
qed

lemma showInteractionMessage_tooltips [simp]:
  "tooltip_overlays (state_of (showInteractionMessage m s)) = tooltip_overlays s"
  by (simp add: micro_defs tooltip_overlays_def)

lemma trigger_mouseenter_overlays:
  "tooltip_overlays (trigger_mouseenter t tip s) =
     tooltip_overlays s @ [\<lparr>node_id = next_node s, className = ''tooltip'', content = tip,
        visible = False\<rparr>]"
  "tooltip (trigger_mouseenter t tip s) = (tooltip s)(t := Some (next_node s))"
  by (simp_all add: trigger_mouseenter_def Let_def)
     (simp_all add: appendChild_def tooltip_overlays_def)

lemma next_node_showInteractionMessage:
  "next_node s \<le> next_node (state_of (showInteractionMessage m s))"
  by (simp add: micro_defs)

lemma next_node_trigger_mouseenter:
  "next_node s < next_node (trigger_mouseenter t tip s)"
proof -
  have "next_node s + 1 \<le> next_node (trigger_mouseenter t tip s)"
    unfolding trigger_mouseenter_def Let_def
    by (rule order_trans [OF _ next_node_showInteractionMessage]) (simp add: appendChild_def)
  then show ?thesis by simp
qed

lemma trigger_mouseleave_overlays:
  "tooltip_overlays (trigger_mouseleave t s) =
     (case tooltip s t of None \<Rightarrow> tooltip_overlays s
      | Some n \<Rightarrow> filter (\<lambda>el. node_id el \<noteq> n) (tooltip_overlays s))"
  "tooltip (trigger_mouseleave t s) =
     (case tooltip s t of None \<Rightarrow> tooltip s | Some n \<Rightarrow> (tooltip s)(t := None))"
  by (auto simp: trigger_mouseleave_def remove_node_def tooltip_overlays_def conj_commute
      split: option.splits)

lemma two_triggers:
  assumes "A \<noteq> B" and "tooltip_overlays s = []"
  shows "map content (tooltip_overlays (micro_run s
              [Trigger_mouseenter A a, Trigger_mouseenter B b'])) = [a, b']"
    and "map content (tooltip_overlays (micro_run s
              [Trigger_mouseenter A a, Trigger_mouseenter B b', Trigger_mouseleave A])) = [b']"
    and "map content (tooltip_overlays (micro_run s
              [Trigger_mouseenter A a, Trigger_mouseenter B b', Trigger_mouseleave A,
               Trigger_mouseleave B])) = []"
proof -
  let ?s1 = "trigger_mouseenter A a s"
  let ?s2 = "trigger_mouseenter B b' ?s1"
  have lt: "next_node s < next_node ?s1"
    by (rule next_node_trigger_mouseenter)
  have o2: "tooltip_overlays ?s2 =
      [\<lparr>node_id = next_node s, className = ''tooltip'', content = a, visible = False\<rparr>,
       \<lparr>node_id = next_node ?s1, className = ''tooltip'', content = b', visible = False\<rparr>]"
    by (simp add: trigger_mouseenter_overlays assms(2))
  have t2: "tooltip ?s2 = (tooltip s)(A := Some (next_node s), B := Some (next_node ?s1))"
    by (simp add: trigger_mouseenter_overlays)
  show "map content (tooltip_overlays (micro_run s
              [Trigger_mouseenter A a, Trigger_mouseenter B b'])) = [a, b']"
    by (simp add: o2)
  have o3: "tooltip_overlays (trigger_mouseleave A ?s2) =
      [\<lparr>node_id = next_node ?s1, className = ''tooltip'', content = b', visible = False\<rparr>]"
    using assms(1) lt by (simp add: trigger_mouseleave_overlays o2 t2)
  show "map content (tooltip_overlays (micro_run s
              [Trigger_mouseenter A a, Trigger_mouseenter B b', Trigger_mouseleave A])) = [b']"
    by (simp add: o3)
  have t3: "tooltip (trigger_mouseleave A ?s2) B = Some (next_node ?s1)"
    using assms(1) by (simp add: trigger_mouseleave_overlays t2)
  show "map content (tooltip_overlays (micro_run s
              [Trigger_mouseenter A a, Trigger_mouseenter B b', Trigger_mouseleave A,
               Trigger_mouseleave B])) = []"
    by (simp add: trigger_mouseleave_overlays(1) [of B] t3 o3)
qed

text \<open>
  C2, as the specification states it: with pointer-enter on trigger A and then on another
  trigger B, and no pointer-leave on A in between, two tooltip overlays are never in the
  document at once. Each trigger keeps its own variable and the handler looks at no other
  trigger, so after pointer-enter on trigger 0 and then on trigger 1 both overlays are in
  the document.
\<close>

theorem two_tooltips_at_once:
  "(0::nat) \<noteq> 1 \<and>
   map content (tooltip_overlays (micro_run (init_micro_page sample_button None working_session)
      [Trigger_mouseenter 0 ''first tip'', Trigger_mouseenter 1 ''second tip''])) =
     [''first tip'', ''second tip''] \<and>
   length (tooltip_overlays (micro_run (init_micro_page sample_button None working_session)
      [Trigger_mouseenter 0 ''first tip'', Trigger_mouseenter 1 ''second tip''])) = 2"
  by (simp add: eval_defs)

text \<open>
  C2, amended: the overlays are kept per trigger. In every event sequence in which no
  trigger gets a pointer-enter while it holds an overlay, the tooltip overlays in the
  document have distinct ids, are exactly the overlays held by the triggers, and are as
  many as the triggers hovered. For two distinct triggers A and B, pointer-enter on A and
  then on B leaves both overlays in the document; the pointer-leave on A then removes the
  overlay of A only, and the pointer-leave on B removes the other.
\<close>

theorem tooltip_per_hovered_trigger:
  assumes "enters_alternate (init_micro_page b th ss) evs"
  shows "distinct (map node_id (tooltip_overlays (micro_run (init_micro_page b th ss) evs))) \<and>
         set (map node_id (tooltip_overlays (micro_run (init_micro_page b th ss) evs))) =
           ran (tooltip (micro_run (init_micro_page b th ss) evs)) \<and>
         length (tooltip_overlays (micro_run (init_micro_page b th ss) evs)) =
           card (hovered (micro_run (init_micro_page b th ss) evs)) \<and>
         (\<forall>A B a b'. A \<noteq> B \<longrightarrow>
            map content (tooltip_overlays (micro_run (init_micro_page b th ss)
              [Trigger_mouseenter A a, Trigger_mouseenter B b'])) = [a, b'] \<and>
            map content (tooltip_overlays (micro_run (init_micro_page b th ss)
              [Trigger_mouseenter A a, Trigger_mouseenter B b', Trigger_mouseleave A])) = [b'] \<and>
            map content (tooltip_overlays (micro_run (init_micro_page b th ss)
              [Trigger_mouseenter A a, Trigger_mouseenter B b', Trigger_mouseleave A,
               Trigger_mouseleave B])) = [])"
proof -
  have inv: "tip_inv (micro_run (init_micro_page b th ss) evs)"
    using tip_inv_init assms by (rule tip_inv_run)
  have triggers_empty: "tooltip_overlays (init_micro_page b th ss) = []"
    by (simp add: tooltip_overlays_def)
  note scen = two_triggers [OF _ triggers_empty]
  from tip_inv_count [OF inv] have count:
    "distinct (map node_id (tooltip_overlays (micro_run (init_micro_page b th ss) evs)))"
    "set (map node_id (tooltip_overlays (micro_run (init_micro_page b th ss) evs))) =
       ran (tooltip (micro_run (init_micro_page b th ss) evs))"
    "length (tooltip_overlays (micro_run (init_micro_page b th ss) evs)) =
       card (hovered (micro_run (init_micro_page b th ss) evs))"
    by simp_all
  show ?thesis
    by (intro conjI allI impI count scen) assumption+
qed

theorem tooltip_per_hovered_trigger_witness:
  "enters_alternate (init_micro_page sample_button None working_session)
     [Trigger_mouseenter 0 ''first tip'', Trigger_mouseenter 1 ''second tip'',
      Trigger_mouseleave 0] \<and>
   map content (tooltip_overlays (micro_run (init_micro_page sample_button None working_session)
     [Trigger_mouseenter 0 ''first tip'', Trigger_mouseenter 1 ''second tip'',
      Trigger_mouseleave 0])) = [''second tip''] \<and>
   card (hovered (micro_run (init_micro_page sample_button None working_session)
     [Trigger_mouseenter 0 ''first tip'', Trigger_mouseenter 1 ''second tip'',
      Trigger_mouseleave 0])) = 1"
proof -
  let ?evs = "[Trigger_mouseenter 0 ''first tip'', Trigger_mouseenter 1 ''second tip'',
      Trigger_mouseleave 0]"
  have alt: "enters_alternate (init_micro_page sample_button None working_session) ?evs"
    by (simp add: eval_defs)
  have one: "map content (tooltip_overlays (micro_run (init_micro_page sample_button None working_session)
     ?evs)) = [''second tip'']"
    by (simp add: eval_defs)
  have "length (tooltip_overlays (micro_run (init_micro_page sample_button None working_session)
     ?evs)) = 1"
    by (simp add: eval_defs)
  moreover have "length (tooltip_overlays (micro_run (init_micro_page sample_button None working_session)
     ?evs)) = card (hovered (micro_run (init_micro_page sample_button None working_session) ?evs))"
    using tooltip_per_hovered_trigger [OF alt] by (rule conjunct1 [OF conjunct2 [OF conjunct2]])
  ultimately have "card (hovered (micro_run (init_micro_page sample_button None working_session) ?evs)) = 1"
    by (simp only:)
  with alt one show ?thesis
    by (intro conjI)
qed

lemma idle_step:
  assumes "currentState s = 0" and "e \<noteq> Button_mouseenter"
  shows "currentState (micro_step s e) = 0 \<and> stateButton (micro_step s e) = stateButton s"
proof (cases e)
  case (Timer_fires k)
  have "currentState (run_timer t s') = currentState s' \<and>
        stateButton (run_timer t s') = stateButton s'" for t s'
    by (cases t) (simp_all add: micro_defs)
  with assms show ?thesis by (simp add: Timer_fires)
next
  case Button_click
  with assms show ?thesis by (simp add: button_click_eq Let_def setTimeout_def)
qed (use assms in \<open>simp_all add: button_mouseleave_def flipCard_mouseenter_def
       flipCard_mouseleave_def toggle_change_def trigger_mouseenter_def trigger_mouseleave_def
       remove_node_def appendChild_def Let_def split: option.splits\<close>)

lemma idle_run:
  assumes "currentState s = 0" and "Button_mouseenter \<notin> set evs"
  shows "currentState (micro_run s evs) = 0 \<and> stateButton (micro_run s evs) = stateButton s"
  using assms
proof (induction evs arbitrary: s)
  case Nil
  then show ?case by simp
next
  case (Cons e evs)
  have "currentState (micro_step s e) = 0 \<and> stateButton (micro_step s e) = stateButton s"
    using Cons.prems by (intro idle_step) auto
  with Cons show ?case by simp
qed

lemma micro_run_requests_idle:
  assumes "currentState s = 0" and "Button_mouseenter \<notin> set evs"
  shows "easter_egg_requests (micro_run s evs) =
     easter_egg_requests s @
       (if clickCount s < 5 \<and> 5 \<le> clickCount s + clicks evs
        then [Show_easter_egg easter_egg_message] else [])"
  using assms
proof (induction evs arbitrary: s)
  case Nil
  show ?case by simp
next
  case (Cons e evs)
  have idle: "currentState (micro_step s e) = 0"
    using Cons.prems by (intro idle_step [THEN conjunct1]) auto
  have rest: "Button_mouseenter \<notin> set evs"
    using Cons.prems by simp
  have step: "easter_egg_requests (micro_step s e) =
      easter_egg_requests s @
        (if e = Button_click \<and> clickCount s = 4 then [Show_easter_egg easter_egg_message]
         else [])"
    using Cons.prems(1) by (cases "e = Button_click")
      (simp_all add: button_click_requests other_step_requests)
  show ?case
    by (simp add: Cons.IH [OF idle rest] step micro_step_clickCount)
qed

text \<open>
  C9: a click in the idle state (\<open>currentState = 0\<close>) adds one to the click counter and
  leaves the state and the look of the button as they were, and requests no message. In
  every event sequence without a pointer-enter on the button the state stays idle, the
  button keeps its look, the counter is the number of clicks and the easter egg is
  requested once there are five clicks; five clicks from the fresh page leave the
  easter-egg callback pending, and running it appends the overlay.
\<close>

theorem idle_clicks_count:
  "(currentState s = 0 \<longrightarrow>
      clickCount (button_click s) = clickCount s + 1 \<and>
      currentState (button_click s) = 0 \<and>
      stateButton (button_click s) = stateButton s \<and>
      banners_shown (button_click s) = banners_shown s) \<and>
   (Button_mouseenter \<notin> set evs \<longrightarrow>
      currentState (micro_run (init_micro_page b th ss) evs) = 0 \<and>
      stateButton (micro_run (init_micro_page b th ss) evs) = b \<and>
      clickCount (micro_run (init_micro_page b th ss) evs) = clicks evs \<and>
      easter_egg_requests (micro_run (init_micro_page b th ss) evs) =
        (if 5 \<le> clicks evs then [Show_easter_egg easter_egg_message] else [])) \<and>
   currentState (micro_run (init_micro_page b th ss)
      [Button_click, Button_click, Button_click, Button_click, Button_click]) = 0 \<and>
   stateButton (micro_run (init_micro_page b th ss)
      [Button_click, Button_click, Button_click, Button_click, Button_click]) = b \<and>
   timers (micro_run (init_micro_page b th ss)
      [Button_click, Button_click, Button_click, Button_click, Button_click]) =
      [Show_easter_egg easter_egg_message] \<and>
   map content (easter_eggs_shown (micro_run (init_micro_page b th ss)
      [Button_click, Button_click, Button_click, Button_click, Button_click, Timer_fires 0])) =
      [easter_egg_message]"
proof -
  have one: "currentState s = 0 \<longrightarrow>
      clickCount (button_click s) = clickCount s + 1 \<and>
      currentState (button_click s) = 0 \<and>
      stateButton (button_click s) = stateButton s \<and>
      banners_shown (button_click s) = banners_shown s"
    by (simp add: button_click_eq Let_def setTimeout_def banners_shown_def)
  have run: "Button_mouseenter \<notin> set evs \<longrightarrow>
      currentState (micro_run (init_micro_page b th ss) evs) = 0 \<and>
      stateButton (micro_run (init_micro_page b th ss) evs) = b \<and>
      clickCount (micro_run (init_micro_page b th ss) evs) = clicks evs \<and>
      easter_egg_requests (micro_run (init_micro_page b th ss) evs) =
        (if 5 \<le> clicks evs then [Show_easter_egg easter_egg_message] else [])"
    using idle_run [of "init_micro_page b th ss" evs]
      micro_run_requests_idle [of "init_micro_page b th ss" evs]
    by (simp add: micro_run_clickCount)
  have five: "currentState (micro_run (init_micro_page b th ss)
      [Button_click, Button_click, Button_click, Button_click, Button_click]) = 0 \<and>
   stateButton (micro_run (init_micro_page b th ss)
      [Button_click, Button_click, Button_click, Button_click, Button_click]) = b \<and>
   timers (micro_run (init_micro_page b th ss)
      [Button_click, Button_click, Button_click, Button_click, Button_click]) =
      [Show_easter_egg easter_egg_message] \<and>
   map content (easter_eggs_shown (micro_run (init_micro_page b th ss)
      [Button_click, Button_click, Button_click, Button_click, Button_click, Timer_fires 0])) =
      [easter_egg_message]"
    by (simp add: button_click_eq showEasterEgg_def appendChild_def setTimeout_def Let_def
        init_micro_page_def easter_eggs_shown_def)
  from one run five show ?thesis by blast
qed

theorem idle_clicks_count_witness:
  "currentState (init_micro_page sample_button None working_session) = 0 \<and>
   Button_mouseenter \<notin> set [Button_click, Button_click, Button_click, Button_click, Button_click] \<and>
   clickCount (button_click (init_micro_page sample_button None working_session)) = 1 \<and>
   stateButton (button_click (init_micro_page sample_button None working_session)) = sample_button \<and>
   easter_egg_requests (micro_run (init_micro_page sample_button None working_session)
     [Button_click, Button_click, Button_click, Button_click, Button_click]) =
     [Show_easter_egg easter_egg_message]"
  using idle_clicks_count [of "init_micro_page sample_button None working_session"
      "[Button_click, Button_click, Button_click, Button_click, Button_click]"
      sample_button None working_session]
  by simp




section \<open>Properties of the scroll journey\<close>

lemma scroll_run_Nil [simp]: "scroll_run s [] = s"
  by (simp add: scroll_run_def)

lemma scroll_run_Cons [simp]: "scroll_run s (e # evs) = scroll_run (scroll_step s e) evs"
  by (simp add: scroll_run_def)

lemma scroll_run_append: "scroll_run s (xs @ ys) = scroll_run (scroll_run s xs) ys"
  by (simp add: scroll_run_def)

lemma scroll_step_bottom:
  "hasReachedBottom (scroll_step s e) = (hasReachedBottom s \<or> near_bottom e)"
  by (cases e) (auto simp: on_scroll_def updateStickyLabel_def Let_def split: option.splits)

lemma scroll_step_top:
  "hasReturnedToTop (scroll_step s e) =
     (hasReturnedToTop s \<or> near_top e \<and> (hasReachedBottom s \<or> near_bottom e))"
  by (cases e) (auto simp: on_scroll_def updateStickyLabel_def Let_def split: option.splits)

lemma scroll_step_timeouts:
  "egg_timeouts_set (scroll_step s e) =
     egg_timeouts_set s +
       (if \<not> hasReturnedToTop s \<and> hasReturnedToTop (scroll_step s e) then 1 else 0)"
  by (cases e) (auto simp: on_scroll_def updateStickyLabel_def Let_def split: option.splits)

lemma scroll_step_pending:
  "egg_overlays (scroll_step s e) + (if scrollTimeout (scroll_step s e) then 1 else 0) \<le>
     egg_overlays s + (if scrollTimeout s then 1 else 0) +
       (if \<not> hasReturnedToTop s \<and> hasReturnedToTop (scroll_step s e) then 1 else 0)"
  by (cases e) (auto simp: on_scroll_def updateStickyLabel_def Let_def split: option.splits)

lemma scroll_inv_step:
  assumes "scroll_inv s"
  shows "scroll_inv (scroll_step s e)"
proof (cases "hasReturnedToTop s")
  case True
  then have "hasReturnedToTop (scroll_step s e)" and "hasReachedBottom (scroll_step s e)"
    using assms by (simp_all add: scroll_step_top scroll_step_bottom scroll_inv_def)
  moreover have "egg_timeouts_set (scroll_step s e) = egg_timeouts_set s"
    using True by (simp add: scroll_step_timeouts)
  moreover have "egg_overlays (scroll_step s e) +
      (if scrollTimeout (scroll_step s e) then 1 else 0) \<le>
      egg_overlays s + (if scrollTimeout s then 1 else 0)"
    using scroll_step_pending [of s e] True by simp
  ultimately show ?thesis
    using assms True unfolding scroll_inv_def by simp
next
  case False
  then have zero: "egg_timeouts_set s = 0" "egg_overlays s = 0" "\<not> scrollTimeout s"
    using assms unfolding scroll_inv_def by (auto split: if_splits)
  show ?thesis
  proof (cases "hasReturnedToTop (scroll_step s e)")
    case top: True
    then have "hasReachedBottom (scroll_step s e)"
      using False by (auto simp: scroll_step_top scroll_step_bottom)
    moreover have "egg_timeouts_set (scroll_step s e) = 1"
      using False top zero by (simp add: scroll_step_timeouts)
    moreover have "egg_overlays (scroll_step s e) +
        (if scrollTimeout (scroll_step s e) then 1 else 0) \<le> 1"
      using scroll_step_pending [of s e] False top zero by simp
    ultimately show ?thesis
      using top unfolding scroll_inv_def by simp
  next
    case ntop: False
    have "egg_timeouts_set (scroll_step s e) = 0"
      using False ntop zero by (simp add: scroll_step_timeouts)
    moreover have "egg_overlays (scroll_step s e) +
        (if scrollTimeout (scroll_step s e) then 1 else 0) \<le> 0"
      using scroll_step_pending [of s e] False ntop zero by simp
    ultimately show ?thesis
      using ntop unfolding scroll_inv_def by simp
  qed
qed

lemma scroll_inv_run:
  "scroll_inv s \<Longrightarrow> scroll_inv (scroll_run s evs)"
  by (induction evs arbitrary: s) (simp_all add: scroll_inv_step)

lemma scroll_inv_init: "scroll_inv (init_scroll_page hint)"
  by (simp add: scroll_inv_def init_scroll_page_def)

lemma scroll_run_bottom_mono:
  "hasReachedBottom s \<Longrightarrow> hasReachedBottom (scroll_run s evs)"
  by (induction evs arbitrary: s) (simp_all add: scroll_step_bottom)

lemma scroll_run_top_mono:
  "hasReturnedToTop s \<Longrightarrow> hasReturnedToTop (scroll_run s evs)"
  by (induction evs arbitrary: s) (simp_all add: scroll_step_top)

lemma bottom_then_top:
  assumes "near_bottom b" and "near_top t"
  shows "hasReturnedToTop (scroll_run s (xs @ [b] @ ys @ [t] @ zs))"
proof -
  let ?s1 = "scroll_step (scroll_run s xs) b"
  let ?s2 = "scroll_step (scroll_run ?s1 ys) t"
  have "hasReachedBottom ?s1"
    using assms(1) by (simp add: scroll_step_bottom)
  then have "hasReachedBottom (scroll_run ?s1 ys)"
    by (rule scroll_run_bottom_mono)
  then have "hasReturnedToTop ?s2"
    using assms(2) by (simp add: scroll_step_top)
  then have "hasReturnedToTop (scroll_run ?s2 zs)"
    by (rule scroll_run_top_mono)
  then show ?thesis
    by (simp add: scroll_run_append)
qed

text \<open>
  C8: both flags start false. A scroll event sets \<open>hasReachedBottom\<close> when the position is
  less than 50 units from the bottom and no event clears it; \<open>hasReturnedToTop\<close> is set
  when the position is less than 100 units from the top and \<open>hasReachedBottom\<close> holds in
  the second test of the handler (from an earlier event or set by the first test of the same
  event), and no event clears it; so whenever \<open>hasReturnedToTop\<close> holds,
  \<open>hasReachedBottom\<close> holds. The timeout of the discovery overlay is set at the step
  that sets \<open>hasReturnedToTop\<close> and at no other: in every event sequence it has been
  set once if the flag holds and never otherwise, the overlay is appended at most that
  often, and any sequence with a bottom event followed later by a top event, however
  often the pair is repeated, has set it exactly once.
\<close>

theorem scroll_journey_flags:
  "\<not> hasReachedBottom (init_scroll_page hint) \<and>
   \<not> hasReturnedToTop (init_scroll_page hint) \<and>
   hasReachedBottom (scroll_step s e) = (hasReachedBottom s \<or> near_bottom e) \<and>
   hasReturnedToTop (scroll_step s e) =
     (hasReturnedToTop s \<or> near_top e \<and> (hasReachedBottom s \<or> near_bottom e)) \<and>
   egg_timeouts_set (scroll_step s e) =
     egg_timeouts_set s +
       (if \<not> hasReturnedToTop s \<and> hasReturnedToTop (scroll_step s e) then 1 else 0) \<and>
   (hasReturnedToTop (scroll_run (init_scroll_page hint) evs) \<longrightarrow>
      hasReachedBottom (scroll_run (init_scroll_page hint) evs)) \<and>
   egg_timeouts_set (scroll_run (init_scroll_page hint) evs) =
     (if hasReturnedToTop (scroll_run (init_scroll_page hint) evs) then 1 else 0) \<and>
   egg_overlays (scroll_run (init_scroll_page hint) evs) \<le>
     egg_timeouts_set (scroll_run (init_scroll_page hint) evs) \<and>
   (\<forall>xs b ys t zs. evs = xs @ [b] @ ys @ [t] @ zs \<and> near_bottom b \<and> near_top t \<longrightarrow>
      egg_timeouts_set (scroll_run (init_scroll_page hint) evs) = 1)"
proof -
  have init: "\<not> hasReachedBottom (init_scroll_page hint)"
    "\<not> hasReturnedToTop (init_scroll_page hint)"
    by (simp_all add: init_scroll_page_def)
  have "scroll_inv (scroll_run (init_scroll_page hint) evs)"
    by (intro scroll_inv_run scroll_inv_init)
  then have run: "(hasReturnedToTop (scroll_run (init_scroll_page hint) evs) \<longrightarrow>
      hasReachedBottom (scroll_run (init_scroll_page hint) evs)) \<and>
    egg_timeouts_set (scroll_run (init_scroll_page hint) evs) =
      (if hasReturnedToTop (scroll_run (init_scroll_page hint) evs) then 1 else 0) \<and>
    egg_overlays (scroll_run (init_scroll_page hint) evs) \<le>
      egg_timeouts_set (scroll_run (init_scroll_page hint) evs)"
    unfolding scroll_inv_def by simp
  have run1: "hasReachedBottom (scroll_run (init_scroll_page hint) evs)"
    if "hasReturnedToTop (scroll_run (init_scroll_page hint) evs)"
    using run that by simp
  have run2: "egg_timeouts_set (scroll_run (init_scroll_page hint) evs) =
      (if hasReturnedToTop (scroll_run (init_scroll_page hint) evs) then 1 else 0)"
    using run by simp
  have run3: "egg_overlays (scroll_run (init_scroll_page hint) evs) \<le>
      egg_timeouts_set (scroll_run (init_scroll_page hint) evs)"
    using run by simp
  have once: "egg_timeouts_set (scroll_run (init_scroll_page hint) evs) = 1"
    if "evs = xs @ [b] @ ys @ [t] @ zs \<and> near_bottom b \<and> near_top t" for xs b ys t zs
  proof -
    have "hasReturnedToTop (scroll_run (init_scroll_page hint) (xs @ [b] @ ys @ [t] @ zs))"
      using that by (intro bottom_then_top) simp_all
    then have "hasReturnedToTop (scroll_run (init_scroll_page hint) evs)"
      using that by simp
    then show ?thesis by (simp add: run2)
  qed
  have c6: "hasReturnedToTop (scroll_run (init_scroll_page hint) evs) \<longrightarrow>
      hasReachedBottom (scroll_run (init_scroll_page hint) evs)"
    using run1 by (rule impI)
  have c9: "\<forall>xs b ys t zs. evs = xs @ [b] @ ys @ [t] @ zs \<and> near_bottom b \<and> near_top t \<longrightarrow>
      egg_timeouts_set (scroll_run (init_scroll_page hint) evs) = 1"
    using once by (intro allI impI)
  note c3 = scroll_step_bottom [of s e] and c4 = scroll_step_top [of s e]
    and c5 = scroll_step_timeouts [of s e]
  show ?thesis
    by (intro conjI) (fact init c3 c4 c5 c6 run2 run3 c9)+
qed

theorem scroll_journey_flags_witness:
  "[Scroll \<lparr>scrollHeight = 3000, pageYOffset = 2160, documentElement_scrollTop = 2160,
             innerHeight = 800\<rparr>,
    Scroll \<lparr>scrollHeight = 3000, pageYOffset = 40, documentElement_scrollTop = 40,
             innerHeight = 800\<rparr>,
    Scroll \<lparr>scrollHeight = 3000, pageYOffset = 2200, documentElement_scrollTop = 2200,
             innerHeight = 800\<rparr>,
    Scroll \<lparr>scrollHeight = 3000, pageYOffset = 0, documentElement_scrollTop = 0,
             innerHeight = 800\<rparr>] =
     [] @ [Scroll \<lparr>scrollHeight = 3000, pageYOffset = 2160, documentElement_scrollTop = 2160,
             innerHeight = 800\<rparr>] @ [] @
     [Scroll \<lparr>scrollHeight = 3000, pageYOffset = 40, documentElement_scrollTop = 40,
             innerHeight = 800\<rparr>] @
     [Scroll \<lparr>scrollHeight = 3000, pageYOffset = 2200, documentElement_scrollTop = 2200,
             innerHeight = 800\<rparr>,
      Scroll \<lparr>scrollHeight = 3000, pageYOffset = 0, documentElement_scrollTop = 0,
             innerHeight = 800\<rparr>] \<and>
   near_bottom (Scroll \<lparr>scrollHeight = 3000, pageYOffset = 2160,
     documentElement_scrollTop = 2160, innerHeight = 800\<rparr>) \<and>
   near_top (Scroll \<lparr>scrollHeight = 3000, pageYOffset = 40, documentElement_scrollTop = 40,
     innerHeight = 800\<rparr>) \<and>
   hasReturnedToTop (scroll_run (init_scroll_page (Some False))
     [Scroll \<lparr>scrollHeight = 3000, pageYOffset = 2160, documentElement_scrollTop = 2160,
             innerHeight = 800\<rparr>,
      Scroll \<lparr>scrollHeight = 3000, pageYOffset = 40, documentElement_scrollTop = 40,
             innerHeight = 800\<rparr>,
      Scroll \<lparr>scrollHeight = 3000, pageYOffset = 2200, documentElement_scrollTop = 2200,
             innerHeight = 800\<rparr>,
      Scroll \<lparr>scrollHeight = 3000, pageYOffset = 0, documentElement_scrollTop = 0,
             innerHeight = 800\<rparr>]) \<and>
   egg_timeouts_set (scroll_run (init_scroll_page (Some False))
     [Scroll \<lparr>scrollHeight = 3000, pageYOffset = 2160, documentElement_scrollTop = 2160,
             innerHeight = 800\<rparr>,
      Scroll \<lparr>scrollHeight = 3000, pageYOffset = 40, documentElement_scrollTop = 40,
             innerHeight = 800\<rparr>,
      Scroll \<lparr>scrollHeight = 3000, pageYOffset = 2200, documentElement_scrollTop = 2200,
             innerHeight = 800\<rparr>,
      Scroll \<lparr>scrollHeight = 3000, pageYOffset = 0, documentElement_scrollTop = 0,
             innerHeight = 800\<rparr>]) = 1"
proof -
  let ?b = "Scroll \<lparr>scrollHeight = 3000, pageYOffset = 2160, documentElement_scrollTop = 2160,
             innerHeight = 800\<rparr>"
  let ?t = "Scroll \<lparr>scrollHeight = 3000, pageYOffset = 40, documentElement_scrollTop = 40,
             innerHeight = 800\<rparr>"
  let ?b2 = "Scroll \<lparr>scrollHeight = 3000, pageYOffset = 2200, documentElement_scrollTop = 2200,
             innerHeight = 800\<rparr>"
  let ?t2 = "Scroll \<lparr>scrollHeight = 3000, pageYOffset = 0, documentElement_scrollTop = 0,
             innerHeight = 800\<rparr>"
  have shape: "[?b, ?t, ?b2, ?t2] = [] @ [?b] @ [] @ [?t] @ [?b2, ?t2]"
    by simp
  have nb: "near_bottom ?b"
    by (simp add: distanceFromBottom_def scrollTop_def)
  have nt: "near_top ?t"
    by (simp add: scrollTop_def)
  have top: "hasReturnedToTop (scroll_run (init_scroll_page (Some False)) [?b, ?t, ?b2, ?t2])"
    by (simp add: init_scroll_page_def on_scroll_def updateStickyLabel_def Let_def
        distanceFromBottom_def scrollTop_def)
  have "\<forall>xs b ys t zs. [?b, ?t, ?b2, ?t2] = xs @ [b] @ ys @ [t] @ zs \<and> near_bottom b \<and>
      near_top t \<longrightarrow>
      egg_timeouts_set (scroll_run (init_scroll_page (Some False)) [?b, ?t, ?b2, ?t2]) = 1"
    using scroll_journey_flags [of "Some False" "init_scroll_page (Some False)" ?b
        "[?b, ?t, ?b2, ?t2]"]
    by (elim conjE)
  then have "[?b, ?t, ?b2, ?t2] = [] @ [?b] @ [] @ [?t] @ [?b2, ?t2] \<and> near_bottom ?b \<and>
      near_top ?t \<longrightarrow>
      egg_timeouts_set (scroll_run (init_scroll_page (Some False)) [?b, ?t, ?b2, ?t2]) = 1"
    by (elim allE)
  then have "egg_timeouts_set (scroll_run (init_scroll_page (Some False)) [?b, ?t, ?b2, ?t2]) = 1"
    using shape nb nt by (elim impE) (intro conjI)
  with shape nb nt top show ?thesis
    by (intro conjI)
qed


section \<open>Properties of the Vue fallback\<close>

lemma vue_run_Nil [simp]: "vue_run env s [] = s"
  by (simp add: vue_run_def)

lemma vue_run_Cons [simp]: "vue_run env s (e # evs) = vue_run env (vue_step env s e) evs"
  by (simp add: vue_run_def)

lemma expected_panel_cause:
  "cause (expected_panel protocol) = (if protocol = ''file:'' then Local_file_hint else Cdn_hint)"
  "suggestions_box (expected_panel protocol) = (protocol = ''file:'')"
  "error_line (expected_panel protocol) = None"
  by (simp_all add: expected_panel_def)

lemma showVueError_absent:
  "showVueError (vue_absent protocol) None s =
     s\<lparr>vue_app := map_option (\<lambda>old. Fallback (expected_panel protocol)) (vue_app s),
       showVueError_calls := showVueError_calls s + 1\<rparr>"
  by (simp add: showVueError_def vue_absent_def expected_panel_def Let_def)

lemma tryInitVue_absent:
  assumes "vue_app s = Some r"
  shows "tryInitVue (vue_absent protocol) s =
     s\<lparr>initAttempts := initAttempts s + 1,
       vue_app := Some (Fallback (expected_panel protocol)),
       pending_tryInitVue :=
         pending_tryInitVue s + (if initAttempts s + 1 < maxAttempts then 1 else 0),
       showVueError_calls :=
         showVueError_calls s + (if initAttempts s + 1 < maxAttempts then 1 else 2)\<rparr>"
proof -
  have v: "Vue_at (vue_absent protocol) n = Vue_undefined" for n
    by (simp add: vue_absent_def)
  show ?thesis
    using assms
    by (simp add: tryInitVue_def initVueApp_def Let_def v showVueError_absent)
qed

lemma tryInitVue_no_root:
  assumes "vue_app s = None"
  shows "tryInitVue (vue_absent protocol) s =
     s\<lparr>initAttempts := initAttempts s + 1,
       pending_tryInitVue :=
         pending_tryInitVue s + (if initAttempts s + 1 < maxAttempts then 1 else 0)\<rparr>"
proof -
  have v: "Vue_at (vue_absent protocol) n = Vue_undefined" for n
    by (simp add: vue_absent_def)
  show ?thesis
    using assms
    by (simp add: tryInitVue_def initVueApp_def Let_def v)
qed

lemma vue_inv_step:
  assumes "vue_inv protocol r s"
  shows "vue_inv protocol r (vue_step (vue_absent protocol) s e)"
proof (cases e)
  case Timeout_fires
  show ?thesis
  proof (cases "pending_tryInitVue s > 0")
    case True
    let ?s' = "s\<lparr>pending_tryInitVue := pending_tryInitVue s - 1\<rparr>"
    obtain r' where root: "vue_app ?s' = Some r'"
      using assms by (auto simp: vue_inv_def split: if_splits)
    have step: "vue_step (vue_absent protocol) s e = tryInitVue (vue_absent protocol) ?s'"
      using True by (simp add: Timeout_fires)
    show ?thesis
      using assms True
      unfolding step tryInitVue_absent [OF root] vue_inv_def
      by (auto simp: maxAttempts_def)
  next
    case False
    with assms show ?thesis by (simp add: Timeout_fires)
  qed
next
  case Window_load
  with assms show ?thesis
    by (simp add: vue_inv_def)
qed

lemma vue_inv_run:
  "vue_inv protocol r s \<Longrightarrow> vue_inv protocol r (vue_run (vue_absent protocol) s evs)"
  by (induction evs arbitrary: s) (simp_all add: vue_inv_step)

lemma vue_inv_init: "vue_inv protocol r (init_vue_page (Some r))"
  by (simp add: vue_inv_def init_vue_page_def maxAttempts_def)

lemma vue_no_root_step:
  assumes "vue_app s = None" and "showVueError_calls s = 0"
  shows "vue_app (vue_step (vue_absent protocol) s e) = None \<and>
         showVueError_calls (vue_step (vue_absent protocol) s e) = 0"
  using assms by (cases e) (simp_all add: tryInitVue_no_root)

lemma vue_no_root_run:
  assumes "vue_app s = None" and "showVueError_calls s = 0"
  shows "vue_app (vue_run (vue_absent protocol) s evs) = None \<and>
         showVueError_calls (vue_run (vue_absent protocol) s evs) = 0"
  using assms
proof (induction evs arbitrary: s)
  case Nil
  then show ?case by simp
next
  case (Cons e evs)
  from vue_no_root_step [OF Cons.prems, of protocol e] show ?case
    by (simp only: vue_run_Cons) (intro Cons.IH, simp_all)
qed

text \<open>
  C3, as the specification states it: when \<^verbatim>\<open>Vue\<close> is still absent after the ten poll
  attempts, the fallback panel is rendered exactly once. On a page with the mount element
  and \<^verbatim>\<open>Vue\<close> absent throughout, the first attempt already writes the panel while the
  next attempt is pending, and when the tenth attempt has given up \<^verbatim>\<open>showVueError\<close>
  has written it eleven times.
\<close>

theorem fallback_written_eleven_times:
  "showVueError_calls (vue_run (vue_absent ''https:'') (init_vue_page (Some Page_markup))
      [Timeout_fires]) = 1 \<and>
   pending_tryInitVue (vue_run (vue_absent ''https:'') (init_vue_page (Some Page_markup))
      [Timeout_fires]) = 1 \<and>
   initAttempts (vue_run (vue_absent ''https:'') (init_vue_page (Some Page_markup))
      [Timeout_fires, Timeout_fires, Timeout_fires, Timeout_fires, Timeout_fires,
       Timeout_fires, Timeout_fires, Timeout_fires, Timeout_fires, Timeout_fires]) = 10 \<and>
   pending_tryInitVue (vue_run (vue_absent ''https:'') (init_vue_page (Some Page_markup))
      [Timeout_fires, Timeout_fires, Timeout_fires, Timeout_fires, Timeout_fires,
       Timeout_fires, Timeout_fires, Timeout_fires, Timeout_fires, Timeout_fires]) = 0 \<and>
   showVueError_calls (vue_run (vue_absent ''https:'') (init_vue_page (Some Page_markup))
      [Timeout_fires, Timeout_fires, Timeout_fires, Timeout_fires, Timeout_fires,
       Timeout_fires, Timeout_fires, Timeout_fires, Timeout_fires, Timeout_fires]) = 11"
  by (simp add: init_vue_page_def tryInitVue_absent maxAttempts_def)

text \<open>
  C3, amended: with \<^verbatim>\<open>Vue\<close> absent at every attempt and the mount element present,
  every attempt writes the fallback panel into the element and the attempts from the tenth
  on write it a second time, so after \<open>n\<close> attempts \<^verbatim>\<open>showVueError\<close> has run
  \<open>n + (n - 9)\<close> times (eleven times for the chain of ten attempts); every write
  replaces the content of the element, which from the first attempt on holds the one
  panel; polling is over only after ten attempts; and the panel carries the local-file
  hint and the suggestions exactly when \<^verbatim>\<open>window.location.protocol\<close> is
  \<^verbatim>\<open>file:\<close>, otherwise the network hint. Without the mount element nothing is
  rendered.
\<close>

theorem fallback_panel_when_vue_absent:
  "(initAttempts (vue_run (vue_absent protocol) (init_vue_page (Some r)) evs) \<ge> 1 \<longrightarrow>
      vue_app (vue_run (vue_absent protocol) (init_vue_page (Some r)) evs) =
        Some (Fallback (expected_panel protocol))) \<and>
   showVueError_calls (vue_run (vue_absent protocol) (init_vue_page (Some r)) evs) =
     initAttempts (vue_run (vue_absent protocol) (init_vue_page (Some r)) evs) +
     (initAttempts (vue_run (vue_absent protocol) (init_vue_page (Some r)) evs) - 9) \<and>
   (pending_tryInitVue (vue_run (vue_absent protocol) (init_vue_page (Some r)) evs) = 0 \<longrightarrow>
      initAttempts (vue_run (vue_absent protocol) (init_vue_page (Some r)) evs) \<ge> maxAttempts) \<and>
   showVueError_calls (vue_run (vue_absent protocol) (init_vue_page (Some r))
      [Timeout_fires, Timeout_fires, Timeout_fires, Timeout_fires, Timeout_fires,
       Timeout_fires, Timeout_fires, Timeout_fires, Timeout_fires, Timeout_fires]) = 11 \<and>
   cause (expected_panel protocol) =
     (if protocol = ''file:'' then Local_file_hint else Cdn_hint) \<and>
   suggestions_box (expected_panel protocol) = (protocol = ''file:'') \<and>
   vue_app (vue_run (vue_absent protocol) (init_vue_page None) evs) = None \<and>
   showVueError_calls (vue_run (vue_absent protocol) (init_vue_page None) evs) = 0"
proof -
  let ?s = "vue_run (vue_absent protocol) (init_vue_page (Some r)) evs"
  have inv: "vue_inv protocol r ?s"
    by (intro vue_inv_run vue_inv_init)
  have c1: "initAttempts ?s \<ge> 1 \<longrightarrow> vue_app ?s = Some (Fallback (expected_panel protocol))"
    using inv by (simp add: vue_inv_def)
  have c2: "showVueError_calls ?s = initAttempts ?s + (initAttempts ?s - 9)"
    using inv by (simp add: vue_inv_def)
  have c3: "pending_tryInitVue ?s = 0 \<longrightarrow> initAttempts ?s \<ge> maxAttempts"
    using inv by (auto simp: vue_inv_def)
  have c4: "showVueError_calls (vue_run (vue_absent protocol) (init_vue_page (Some r))
      [Timeout_fires, Timeout_fires, Timeout_fires, Timeout_fires, Timeout_fires,
       Timeout_fires, Timeout_fires, Timeout_fires, Timeout_fires, Timeout_fires]) = 11"
    by (simp add: init_vue_page_def tryInitVue_absent maxAttempts_def)
  note c5 = expected_panel_cause(1) [of protocol] and c6 = expected_panel_cause(2) [of protocol]
  have none: "vue_app (vue_run (vue_absent protocol) (init_vue_page None) evs) = None \<and>
      showVueError_calls (vue_run (vue_absent protocol) (init_vue_page None) evs) = 0"
    by (rule vue_no_root_run) (simp_all add: init_vue_page_def)
  then have c7: "vue_app (vue_run (vue_absent protocol) (init_vue_page None) evs) = None"
    and c8: "showVueError_calls (vue_run (vue_absent protocol) (init_vue_page None) evs) = 0"
    by simp_all
  show ?thesis
    by (intro conjI) (fact c1 c2 c3 c4 c5 c6 c7 c8)+
qed

theorem fallback_panel_when_vue_absent_witness:
  "initAttempts (vue_run (vue_absent ''file:'') (init_vue_page (Some Page_markup))
      [Timeout_fires, Window_load, Timeout_fires, Timeout_fires]) = 3 \<and>
   vue_app (vue_run (vue_absent ''file:'') (init_vue_page (Some Page_markup))
      [Timeout_fires, Window_load, Timeout_fires, Timeout_fires]) =
     Some (Fallback \<lparr>cause = Local_file_hint, suggestions_box = True, error_line = None\<rparr>) \<and>
   showVueError_calls (vue_run (vue_absent ''file:'') (init_vue_page (Some Page_markup))
      [Timeout_fires, Window_load, Timeout_fires, Timeout_fires]) = 3"
proof -
  let ?s = "vue_run (vue_absent ''file:'') (init_vue_page (Some Page_markup))
      [Timeout_fires, Window_load, Timeout_fires, Timeout_fires]"
  have n: "initAttempts ?s = 3"
    by (simp add: init_vue_page_def tryInitVue_absent maxAttempts_def)
  then have "1 \<le> initAttempts ?s"
    by simp
  with fallback_panel_when_vue_absent [of "''file:''" Page_markup
      "[Timeout_fires, Window_load, Timeout_fires, Timeout_fires]"]
  have "vue_app ?s = Some (Fallback (expected_panel ''file:''))"
    and "showVueError_calls ?s = initAttempts ?s + (initAttempts ?s - 9)"
    by blast+
  with n show ?thesis
    by (simp add: expected_panel_def)
qed


section \<open>Properties of the site configurator\<close>

lemma fold_features:
  "fold (\<lambda>hasFeature basePrice. if hasFeature then basePrice + 150 else basePrice) bs p =
     p + 150 * int (length (filter (\<lambda>b. b) bs))"
  by (induction bs arbitrary: p) simp_all

lemma filter_map_snd:
  "length (filter (\<lambda>b. b) (map snd ps)) = length (filter snd ps)"
  by (induction ps) simp_all

lemma calculatePriceRange_closed:
  "calculatePriceRange c =
     1000 + (if style c = ''Colorful'' then 200 else if style c = ''Elegant'' then 300 else 0) +
     (if layout c = ''Multi-page'' then 500 else 0) + 150 * int (enabled_features c)"
  unfolding calculatePriceRange_def Let_def fold_features filter_map_snd enabled_features_def
  by simp

lemma set_property_keys:
  "k \<in> set (map fst ps) \<Longrightarrow> map fst (set_property k v ps) = map fst ps"
  by (induction ps) force+

lemma config_step_keys:
  assumes "map fst (features c) = feature_names" and "ui_event e"
  shows "map fst (features (config_step c e)) = feature_names"
  using assms
  by (cases e)
     (simp_all add: handleStyleChange_def handleLayoutChange_def handleFeatureToggle_def
        set_property_keys)

lemma config_run_keys:
  assumes "map fst (features c) = feature_names" and "list_all ui_event evs"
  shows "map fst (features (foldl config_step c evs)) = feature_names"
  using assms by (induction evs arbitrary: c) (simp_all add: config_step_keys)

lemma enabled_le_length: "enabled_features c \<le> length (features c)"
  by (simp add: enabled_features_def)

text \<open>
  C10: the price computed by \<^verbatim>\<open>calculatePriceRange\<close> depends on the configuration
  only and is 1000, plus 200 for the style Colorful or 300 for the style Elegant, plus
  500 for the layout Multi-page, plus 150 for every enabled feature; the upper bound of
  the displayed range is this value plus 500. Every configuration reached from the
  initial one through the controls of the component has exactly the three features, so
  the price lies between 1000 and 2250.
\<close>

theorem calculatePriceRange_formula:
  "calculatePriceRange c =
     1000 + (if style c = ''Colorful'' then 200 else if style c = ''Elegant'' then 300 else 0) +
     (if layout c = ''Multi-page'' then 500 else 0) + 150 * int (enabled_features c) \<and>
   price_lower c = calculatePriceRange c \<and>
   price_upper c = calculatePriceRange c + 500 \<and>
   price_text fmt c =
     ''$'' @ fmt (calculatePriceRange c) @ '' - $'' @ fmt (calculatePriceRange c + 500) \<and>
   (list_all ui_event evs \<longrightarrow>
      map fst (features (foldl config_step initial_config evs)) = feature_names \<and>
      enabled_features (foldl config_step initial_config evs) \<le> 3 \<and>
      1000 \<le> calculatePriceRange (foldl config_step initial_config evs) \<and>
      calculatePriceRange (foldl config_step initial_config evs) \<le> 2250)"
proof -
  have run: "map fst (features (foldl config_step initial_config evs)) = feature_names \<and>
      enabled_features (foldl config_step initial_config evs) \<le> 3 \<and>
      1000 \<le> calculatePriceRange (foldl config_step initial_config evs) \<and>
      calculatePriceRange (foldl config_step initial_config evs) \<le> 2250"
    if ui: "list_all ui_event evs"
  proof -
    let ?c = "foldl config_step initial_config evs"
    have keys: "map fst (features ?c) = feature_names"
      using ui by (intro config_run_keys) (simp_all add: initial_config_def feature_names_def)
    have "length (map fst (features ?c)) = 3"
      by (simp only: keys) (simp add: feature_names_def)
    then have "length (features ?c) = 3"
      by (simp only: length_map)
    then have le: "enabled_features ?c \<le> 3"
      using enabled_le_length [of ?c] by simp
    then have "1000 \<le> calculatePriceRange ?c" and "calculatePriceRange ?c \<le> 2250"
      by (simp_all add: calculatePriceRange_closed)
    with keys le show ?thesis by simp
  qed
  show ?thesis
    using run
    by (simp add: calculatePriceRange_closed [symmetric] price_lower_def price_upper_def
        price_text_def)
qed

theorem calculatePriceRange_formula_witness:
  "list_all ui_event [Style_change ''Elegant'', Layout_change ''Multi-page'',
     Feature_toggle ''animations'', Feature_toggle ''blogSection''] \<and>
   calculatePriceRange (foldl config_step initial_config
     [Style_change ''Elegant'', Layout_change ''Multi-page'', Feature_toggle ''animations'',
      Feature_toggle ''blogSection'']) = 2100 \<and>
   price_upper (foldl config_step initial_config
     [Style_change ''Elegant'', Layout_change ''Multi-page'', Feature_toggle ''animations'',
      Feature_toggle ''blogSection'']) = 2600 \<and>
   map fst (features (foldl config_step initial_config
     [Style_change ''Elegant'', Layout_change ''Multi-page'', Feature_toggle ''animations'',
      Feature_toggle ''blogSection''])) = [''animations'', ''contactForm'', ''blogSection'']"
proof -
  let ?evs = "[Style_change ''Elegant'', Layout_change ''Multi-page'',
     Feature_toggle ''animations'', Feature_toggle ''blogSection'']"
  have ui: "list_all ui_event ?evs"
    by (simp add: feature_names_def)
  have c: "foldl config_step initial_config ?evs =
      \<lparr>style = ''Elegant'', layout = ''Multi-page'',
       features = [(''animations'', True), (''contactForm'', False), (''blogSection'', True)]\<rparr>"
    by (simp add: initial_config_def handleStyleChange_def handleLayoutChange_def
        handleFeatureToggle_def)
  let ?c = "\<lparr>style = ''Elegant'', layout = ''Multi-page'',
       features = [(''animations'', True), (''contactForm'', False), (''blogSection'', True)]\<rparr>"
  have e: "enabled_features ?c = 2"
    by (simp add: enabled_features_def)
  note formula = calculatePriceRange_formula
    [of "foldl config_step initial_config ?evs" "\<lambda>n. []" ?evs, unfolded c]
  from formula ui
  have "calculatePriceRange ?c = 2100" and "price_upper ?c = 2600"
    and "map fst (features ?c) = feature_names"
    by (simp_all add: e)
  with ui show ?thesis
    by (simp only: c) (simp add: feature_names_def)
qed

end
